theory Spec2Isabelle
  imports Complex_Main "HOL-Library.Log_Nat" "HOL-Library.Multiset"
begin

section \<open>JavaScript values\<close>

text \<open>
  A JavaScript string is a sequence of UTF-16 code units; \<open>length\<close> is its \<open>.length\<close>.
  ASCII literals of the source are written \<open>lit ''...''\<close>.
\<close>

type_synonym jsstring = "nat list"

definition lit :: "string \<Rightarrow> jsstring" where
  "lit s = map of_char s"

text \<open>
  A Number is a binary64 value: a finite rational, NaN or an infinity. The two zeros are
  not told apart (no function below observes the sign of zero).
\<close>

datatype jsnum = Fin rat | NaN | PosInf | NegInf

text \<open>
  A value as it arrives in a parsed JSON body or a property read: a missing property is
  \<open>JUndefined\<close>. An array or object is \<open>JCompound n\<close>, where \<open>n\<close> is what ToNumber
  yields for it; the functions below observe nothing else of such a value (it is truthy,
  it is no string, and it has no callable \<open>trim\<close>).
\<close>

datatype jsval =
    JUndefined
  | JNull
  | JBool bool
  | JNumber jsnum
  | JString jsstring
  | JCompound jsnum

subsection \<open>Rounding to binary64\<close>

definition round_half_even :: "rat \<Rightarrow> int" where
  "round_half_even q =
     (let f = \<lfloor>q\<rfloor>; d = q - of_int f
      in if d < 1 / 2 then f
         else if 1 / 2 < d then f + 1
         else if even f then f else f + 1)"

text \<open>The exponent of a positive rational: \<open>2 powi ilog2 x \<le> x < 2 powi (ilog2 x + 1)\<close>.\<close>

definition ilog2 :: "rat \<Rightarrow> int" where
  "ilog2 x =
     (case quotient_of x of (a, b) \<Rightarrow>
        let e0 = bitlen a - bitlen b
        in if 2 powi e0 \<le> x then e0 else e0 - 1)"

text \<open>
  Round to nearest, ties to even, with 53 bits of precision; below \<open>2 powi (-1022)\<close> the
  spacing is that of the subnormals, and a result of \<open>2 powi 1024\<close> or more is an infinity.
\<close>

definition fl :: "rat \<Rightarrow> jsnum" where
  "fl x =
     (if x = 0 then Fin 0
      else
        let a = \<bar>x\<bar>;
            e = max (ilog2 a) (- 1022);
            u = 2 powi (e - 52);
            y = of_int (round_half_even (a / u)) * u
        in if 2 powi 1024 \<le> y then (if 0 < x then PosInf else NegInf)
           else Fin (if 0 < x then y else - y))"

fun js_neg :: "jsnum \<Rightarrow> jsnum" where
  "js_neg (Fin q) = Fin (- q)"
| "js_neg NaN = NaN"
| "js_neg PosInf = NegInf"
| "js_neg NegInf = PosInf"

text \<open>The operators \<open>/\<close> and \<open>*\<close> on Numbers.\<close>

fun js_div :: "jsnum \<Rightarrow> jsnum \<Rightarrow> jsnum" where
  "js_div (Fin a) (Fin b) =
     (if b = 0 then (if a = 0 then NaN else if 0 < a then PosInf else NegInf)
      else fl (a / b))"
| "js_div (Fin a) PosInf = Fin 0"
| "js_div (Fin a) NegInf = Fin 0"
| "js_div PosInf (Fin b) = (if 0 \<le> b then PosInf else NegInf)"
| "js_div NegInf (Fin b) = (if 0 \<le> b then NegInf else PosInf)"
| "js_div _ _ = NaN"

fun js_mul :: "jsnum \<Rightarrow> jsnum \<Rightarrow> jsnum" where
  "js_mul (Fin a) (Fin b) = fl (a * b)"
| "js_mul (Fin a) PosInf = (if a = 0 then NaN else if 0 < a then PosInf else NegInf)"
| "js_mul (Fin a) NegInf = (if a = 0 then NaN else if 0 < a then NegInf else PosInf)"
| "js_mul PosInf (Fin b) = (if b = 0 then NaN else if 0 < b then PosInf else NegInf)"
| "js_mul NegInf (Fin b) = (if b = 0 then NaN else if 0 < b then NegInf else PosInf)"
| "js_mul PosInf PosInf = PosInf"
| "js_mul NegInf NegInf = PosInf"
| "js_mul PosInf NegInf = NegInf"
| "js_mul NegInf PosInf = NegInf"
| "js_mul _ _ = NaN"

subsection \<open>Strings to numbers\<close>

text \<open>WhiteSpace and LineTerminator code units, as \<open>trim\<close>, \<open>Number\<close> and \<open>parseInt\<close> skip them.\<close>

definition isWhiteSpace :: "nat \<Rightarrow> bool" where
  "isWhiteSpace c \<longleftrightarrow>
     c = 9 \<or> c = 10 \<or> c = 11 \<or> c = 12 \<or> c = 13 \<or> c = 32 \<or> c = 160 \<or> c = 5760 \<or>
     (8192 \<le> c \<and> c \<le> 8202) \<or> c = 8232 \<or> c = 8233 \<or> c = 8239 \<or> c = 8287 \<or>
     c = 12288 \<or> c = 65279"

definition trim :: "jsstring \<Rightarrow> jsstring" where
  "trim s = rev (dropWhile isWhiteSpace (rev (dropWhile isWhiteSpace s)))"

definition isDigit :: "nat \<Rightarrow> bool" where
  "isDigit c \<longleftrightarrow> 48 \<le> c \<and> c \<le> 57"

text \<open>The value of a digit in a radix up to 16, \<open>None\<close> for any other code unit.\<close>

definition digitOf :: "nat \<Rightarrow> nat option" where
  "digitOf c =
     (if 48 \<le> c \<and> c \<le> 57 then Some (c - 48)
      else if 97 \<le> c \<and> c \<le> 102 then Some (c - 87)
      else if 65 \<le> c \<and> c \<le> 70 then Some (c - 55)
      else None)"

fun digitsValue :: "nat \<Rightarrow> nat \<Rightarrow> jsstring \<Rightarrow> nat option" where
  "digitsValue r acc [] = Some acc"
| "digitsValue r acc (c # cs) =
     (case digitOf c of
        None \<Rightarrow> None
      | Some d \<Rightarrow> if d < r then digitsValue r (acc * r + d) cs else None)"

text \<open>A non-empty run of digits of radix \<open>r\<close>, and nothing else.\<close>

definition parseRadix :: "nat \<Rightarrow> jsstring \<Rightarrow> nat option" where
  "parseRadix r s = (if s = [] then None else digitsValue r 0 s)"

text \<open>ExponentPart, or nothing: the decimal exponent.\<close>

definition exponentPart :: "jsstring \<Rightarrow> int option" where
  "exponentPart s =
     (case s of
        [] \<Rightarrow> Some 0
      | c # t \<Rightarrow>
          if c = 101 \<or> c = 69 then
            (case t of
               [] \<Rightarrow> None
             | g # ds \<Rightarrow>
                 if g = 45 then map_option (\<lambda>n. - int n) (parseRadix 10 ds)
                 else if g = 43 then map_option int (parseRadix 10 ds)
                 else map_option int (parseRadix 10 t))
          else None)"

text \<open>StrUnsignedDecimalLiteral.\<close>

definition StrUnsignedDecimalLiteral :: "jsstring \<Rightarrow> jsnum option" where
  "StrUnsignedDecimalLiteral s =
     (if s = lit ''Infinity'' then Some PosInf
      else
        let ip = takeWhile isDigit s;
            r1 = dropWhile isDigit s;
            dot = (r1 \<noteq> [] \<and> hd r1 = 46);
            fp = (if dot then takeWhile isDigit (tl r1) else []);
            r2 = (if dot then dropWhile isDigit (tl r1) else r1)
        in if ip = [] \<and> fp = [] then None
           else
             (case (digitsValue 10 0 ip, digitsValue 10 0 fp, exponentPart r2) of
                (Some i, Some f, Some ex) \<Rightarrow>
                  Some (fl ((of_nat i + of_nat f / 10 ^ length fp) * 10 powi ex))
              | _ \<Rightarrow> None))"

text \<open>StringToNumber: what \<open>Number(s)\<close> and ToNumber give for a string.\<close>

definition StringToNumber :: "jsstring \<Rightarrow> jsnum" where
  "StringToNumber s =
     (let t = trim s
      in case t of
           [] \<Rightarrow> Fin 0
         | c # r \<Rightarrow>
             if c = 48 \<and> r \<noteq> [] \<and> hd r \<in> {120, 88, 111, 79, 98, 66} then
               (case parseRadix (if hd r \<in> {120, 88} then 16 else if hd r \<in> {111, 79} then 8 else 2)
                       (tl r) of
                  None \<Rightarrow> NaN
                | Some n \<Rightarrow> fl (of_nat n))
             else if c = 43 then
               (case StrUnsignedDecimalLiteral r of None \<Rightarrow> NaN | Some n \<Rightarrow> n)
             else if c = 45 then
               (case StrUnsignedDecimalLiteral r of None \<Rightarrow> NaN | Some n \<Rightarrow> js_neg n)
             else
               (case StrUnsignedDecimalLiteral t of None \<Rightarrow> NaN | Some n \<Rightarrow> n))"

text \<open>\<open>parseInt(s, 10)\<close> on a string: leading white space, a sign, the longest run of digits.\<close>

definition parseInt10 :: "jsstring \<Rightarrow> jsnum" where
  "parseInt10 s =
     (let S = dropWhile isWhiteSpace s;
          neg = (S \<noteq> [] \<and> hd S = 45);
          S1 = (if S \<noteq> [] \<and> (hd S = 45 \<or> hd S = 43) then tl S else S);
          Z = takeWhile isDigit S1
      in if Z = [] then NaN
         else
           (case digitsValue 10 0 Z of
              None \<Rightarrow> NaN
            | Some n \<Rightarrow> if neg then js_neg (fl (of_nat n)) else fl (of_nat n)))"

fun ToNumber :: "jsval \<Rightarrow> jsnum" where
  "ToNumber JUndefined = NaN"
| "ToNumber JNull = Fin 0"
| "ToNumber (JBool b) = Fin (if b then 1 else 0)"
| "ToNumber (JNumber n) = n"
| "ToNumber (JString s) = StringToNumber s"
| "ToNumber (JCompound n) = n"

definition isNaN :: "jsval \<Rightarrow> bool" where
  "isNaN v \<longleftrightarrow> ToNumber v = NaN"

text \<open>ToBoolean: \<open>!v\<close> is \<open>\<not> truthy v\<close>.\<close>

fun truthy :: "jsval \<Rightarrow> bool" where
  "truthy JUndefined = False"
| "truthy JNull = False"
| "truthy (JBool b) = b"
| "truthy (JNumber n) = (n \<noteq> Fin 0 \<and> n \<noteq> NaN)"
| "truthy (JString s) = (s \<noteq> [])"
| "truthy (JCompound n) = True"

section \<open>Errors and responses\<close>

text \<open>
  What a handler or a middleware throws: an Error given a \<open>statusCode\<close> with
  \<open>Object.assign\<close>, or an error without one (a TypeError or ReferenceError of the engine, an
  error of the storage client), named by what raised it.
\<close>

datatype exn =
    HttpError nat jsstring
  | TypeError string
  | ReferenceError string
  | StorageError

section \<open>validators/item.js\<close>

record item_payload =
  p_name :: jsval
  p_quantity :: jsval
  p_brand :: jsval
  p_unitId :: jsval
  p_comments :: jsval

text \<open>The \<open>errors\<close> object: property name and message, in insertion order.\<close>

type_synonym errors = "(string \<times> jsstring) list"

text \<open>
  \<open>v?.trim() || ""\<close>: nothing is called on \<open>undefined\<close> and \<open>null\<close>; a string is trimmed;
  any other value has no function \<open>trim\<close>, and the call throws a TypeError.
\<close>

fun opt_trim :: "string \<Rightarrow> jsval \<Rightarrow> exn + jsstring" where
  "opt_trim prop JUndefined = Inr []"
| "opt_trim prop JNull = Inr []"
| "opt_trim prop (JString s) = Inr (trim s)"
| "opt_trim prop v = Inl (TypeError prop)"

text \<open>The messages (Hebrew): "required field", "at most 50 characters", "the value must be
  greater than zero", "choose a unit of measure", "at most 100 characters".\<close>

definition msg_required :: jsstring where
  "msg_required = [1513, 1491, 1492, 32, 1495, 1493, 1489, 1492]"

definition msg_max50 :: jsstring where
  "msg_max50 = [1492, 1513, 1491, 1492, 32, 1497, 1499, 1493, 1500, 32, 1500, 1492, 1499, 1497,
     1500, 32, 1500, 1499, 1500, 32, 1492, 1497, 1493, 1514, 1512, 32, 53, 48, 32, 1514, 1493,
     1493, 1497, 1501]"

definition msg_quantity :: jsstring where
  "msg_quantity = [1506, 1512, 1498, 32, 1492, 1513, 1491, 1492, 32, 1495, 1497, 1497, 1489, 32,
     1500, 1492, 1497, 1493, 1514, 32, 1490, 1491, 1493, 1500, 32, 1502, 1488, 1508, 1505]"

definition msg_unit :: jsstring where
  "msg_unit = [1497, 1513, 32, 1500, 1489, 1495, 1493, 1512, 32, 1497, 1495, 1497, 1491, 1514, 32,
     1502, 1497, 1491, 1492]"

definition msg_max100 :: jsstring where
  "msg_max100 = [1492, 1513, 1491, 1492, 32, 1497, 1499, 1493, 1500, 32, 1500, 1492, 1499, 1497,
     1500, 32, 1500, 1499, 1500, 32, 1492, 1497, 1493, 1514, 1512, 32, 49, 48, 48, 32, 1514, 1493,
     1493, 1497, 1501]"

definition validateItemAddition :: "item_payload \<Rightarrow> exn + errors" where
  "validateItemAddition item =
     (case opt_trim ''name'' (p_name item) of Inl e \<Rightarrow> Inl e | Inr name \<Rightarrow>
      case opt_trim ''brand'' (p_brand item) of Inl e \<Rightarrow> Inl e | Inr brand \<Rightarrow>
      case opt_trim ''comments'' (p_comments item) of Inl e \<Rightarrow> Inl e | Inr comments \<Rightarrow>
      Inr
       ((if name = [] then [(''name'', msg_required)]
         else if 50 < length name then [(''name'', msg_max50)] else []) @
        (if p_quantity item = JNumber (Fin 0) \<or>
            p_quantity item = JString (lit ''0'') \<or>
            p_quantity item = JString [] \<or>
            p_quantity item = JNull \<or>
            isNaN (p_quantity item)
         then [(''quantity'', msg_quantity)] else []) @
        (if brand \<noteq> [] \<and> 50 < length brand then [(''brand'', msg_max50)] else []) @
        (if (if truthy (p_unitId item) then ToNumber (p_unitId item) = Fin 0 else True)
         then [(''unitId'', msg_unit)] else []) @
        (if comments \<noteq> [] \<and> 100 < length comments then [(''comments'', msg_max100)] else [])))"

definition validateItemUpdate :: "item_payload \<Rightarrow> exn + errors" where
  "validateItemUpdate item =
     (case opt_trim ''name'' (p_name item) of Inl e \<Rightarrow> Inl e | Inr name \<Rightarrow>
      case opt_trim ''brand'' (p_brand item) of Inl e \<Rightarrow> Inl e | Inr brand \<Rightarrow>
      case opt_trim ''comments'' (p_comments item) of Inl e \<Rightarrow> Inl e | Inr comments \<Rightarrow>
      Inr
       ((if name = [] then [(''name'', msg_required)]
         else if 50 < length name then [(''name'', msg_max50)] else []) @
        (if p_quantity item = JNumber (Fin 0) \<or>
            p_quantity item = JString (lit ''0'') \<or>
            p_quantity item = JString [] \<or>
            p_quantity item = JNull \<or>
            isNaN (p_quantity item)
         then [(''quantity'', msg_quantity)] else []) @
        (if brand \<noteq> [] \<and> 50 < length brand then [(''brand'', msg_max50)] else []) @
        (if (if truthy (p_unitId item) then ToNumber (p_unitId item) = Fin 0 else True)
         then [(''unitId'', msg_unit)] else []) @
        (if comments \<noteq> [] \<and> 100 < length comments then [(''comments'', msg_max100)] else [])))"

section \<open>Storage\<close>

text \<open>
  The tables behind the ORM client, as far as the handlers below read or write them. A
  \<open>createdAt\<close> is a time value in milliseconds since the epoch; a nullable column is an option.
\<close>

record list_row =
  l_id :: int
  l_name :: jsstring
  l_createdAt :: int

record category_row =
  c_id :: int
  c_name :: jsstring
  c_iconName :: "jsstring option"

record item_row =
  i_id :: int
  i_name :: jsstring
  i_quantity :: rat
  i_brand :: "jsstring option"
  i_comments :: "jsstring option"
  i_bought :: bool
  i_addedAt :: int
  i_categoryId :: int
  i_listId :: int
  i_unitId :: int

record db =
  db_lists :: "list_row list"
  db_items :: "item_row list"
  db_categories :: "category_row list"
  db_units :: "int list"

text \<open>
  An \<open>Int\<close> argument of a query: the client refuses a Number that is no 32-bit integer.
\<close>

fun prisma_Int :: "jsnum \<Rightarrow> exn + int" where
  "prisma_Int (Fin q) =
     (if q = of_int \<lfloor>q\<rfloor> \<and> - (2 ^ 31) \<le> \<lfloor>q\<rfloor> \<and> \<lfloor>q\<rfloor> < 2 ^ 31 then Inr \<lfloor>q\<rfloor> else Inl StorageError)"
| "prisma_Int _ = Inl StorageError"

section \<open>services/statisticsService.js\<close>

subsection \<open>Dates\<close>

definition msPerDay :: int where
  "msPerDay = 86400000"

definition DaysInYear :: "int \<Rightarrow> int" where
  "DaysInYear y =
     (if y mod 4 \<noteq> 0 then 365 else if y mod 100 \<noteq> 0 then 366
      else if y mod 400 \<noteq> 0 then 365 else 366)"

definition DayFromYear :: "int \<Rightarrow> int" where
  "DayFromYear y = 365 * (y - 1970) + (y - 1969) div 4 - (y - 1901) div 100 + (y - 1601) div 400"

text \<open>The day within the year on which month \<open>mn\<close> (0 to 11) begins.\<close>

definition DaysBeforeMonth :: "bool \<Rightarrow> int \<Rightarrow> int" where
  "DaysBeforeMonth leap mn =
     (if mn = 0 then 0 else if mn = 1 then 31
      else (if leap then 1 else 0) +
        (if mn = 2 then 59 else if mn = 3 then 90 else if mn = 4 then 120
         else if mn = 5 then 151 else if mn = 6 then 181 else if mn = 7 then 212
         else if mn = 8 then 243 else if mn = 9 then 273 else if mn = 10 then 304 else 334))"

definition MakeDay :: "int \<Rightarrow> int \<Rightarrow> int \<Rightarrow> int" where
  "MakeDay year month date =
     (let ym = year + month div 12; mn = month mod 12
      in DayFromYear ym + DaysBeforeMonth (DaysInYear ym = 366) mn + date - 1)"

text \<open>ToIntegerOrInfinity of a finite Number: the fraction is dropped.\<close>

definition ToInteger :: "rat \<Rightarrow> int" where
  "ToInteger q = (if 0 \<le> q then \<lfloor>q\<rfloor> else \<lceil>q\<rceil>)"

definition TimeClip :: "int \<Rightarrow> jsnum" where
  "TimeClip tv = (if 8640000000000000 < \<bar>tv\<bar> then NaN else Fin (of_int tv))"

text \<open>
  \<open>Date.UTC(year, month, date)\<close>, and the time value of the Date made from it; NaN is the
  Invalid Date. A year from 0 to 99 stands for 1900 to 1999.
\<close>

fun Date_UTC :: "jsnum \<Rightarrow> jsnum \<Rightarrow> jsnum \<Rightarrow> jsnum" where
  "Date_UTC (Fin y) (Fin m) (Fin dt) =
     (let yi = ToInteger y;
          yr = (if 0 \<le> yi \<and> yi \<le> 99 then 1900 + yi else yi)
      in TimeClip (MakeDay yr (ToInteger m) (ToInteger dt) * msPerDay))"
| "Date_UTC _ _ _ = NaN"

fun js_sub :: "jsnum \<Rightarrow> jsnum \<Rightarrow> jsnum" where
  "js_sub (Fin a) (Fin b) = fl (a - b)"
| "js_sub NaN _ = NaN"
| "js_sub _ NaN = NaN"
| "js_sub PosInf PosInf = NaN"
| "js_sub NegInf NegInf = NaN"
| "js_sub PosInf _ = PosInf"
| "js_sub NegInf _ = NegInf"
| "js_sub (Fin a) PosInf = NegInf"
| "js_sub (Fin a) NegInf = PosInf"

subsection \<open>parseMonth\<close>

text \<open>\<open>/^\d{4}-\d{2}$/.test(s)\<close>\<close>

definition month_regex_test :: "jsstring \<Rightarrow> bool" where
  "month_regex_test s =
     (case s of
        [a, b, c, d, h, m, n] \<Rightarrow>
          isDigit a \<and> isDigit b \<and> isDigit c \<and> isDigit d \<and> h = 45 \<and> isDigit m \<and> isDigit n
      | _ \<Rightarrow> False)"

text \<open>\<open>s.split(sep)\<close> with a separator of one code unit.\<close>

fun split_on :: "nat \<Rightarrow> jsstring \<Rightarrow> jsstring list" where
  "split_on sep [] = [[]]"
| "split_on sep (c # cs) =
     (if c = sep then [] # split_on sep cs
      else (case split_on sep cs of [] \<Rightarrow> [[c]] | p # ps \<Rightarrow> (c # p) # ps))"

text \<open>An element of an array destructuring: \<open>undefined\<close> past the end.\<close>

definition element :: "jsstring list \<Rightarrow> nat \<Rightarrow> jsval" where
  "element xs i = (if i < length xs then JString (xs ! i) else JUndefined)"

definition msg_month_format :: jsstring where
  "msg_month_format = lit ''Month must be in format YYYY-MM''"

text \<open>The argument is \<open>None\<close> for \<open>undefined\<close>; the result is the pair \<open>{ start, end }\<close>.\<close>

definition parseMonth :: "jsstring option \<Rightarrow> exn + (jsnum \<times> jsnum)" where
  "parseMonth monthStr =
     (case monthStr of
        None \<Rightarrow> Inl (HttpError 400 msg_month_format)
      | Some s \<Rightarrow>
          if s = [] \<or> \<not> month_regex_test s then Inl (HttpError 400 msg_month_format)
          else
            let parts = split_on 45 s;
                year = ToNumber (element parts 0);
                monthNumber = ToNumber (element parts 1);
                start = Date_UTC year (js_sub monthNumber (Fin 1)) (Fin 1);
                end = Date_UTC year monthNumber (Fin 1)
            in Inr (start, end))"

subsection \<open>Objects keyed by an id\<close>

text \<open>
  A plain object whose property keys are ids: the properties in creation order. The key of
  an integer is its decimal string, and \<open>Number\<close> of that string is the integer again, so
  keys are kept as integers.
\<close>

type_synonym 'v obj = "(int \<times> 'v) list"

definition obj_set :: "int \<Rightarrow> 'v \<Rightarrow> 'v obj \<Rightarrow> 'v obj" where
  "obj_set k v ps =
     (case map_of ps k of
        None \<Rightarrow> ps @ [(k, v)]
      | Some old \<Rightarrow> map (\<lambda>p. if fst p = k then (k, v) else p) ps)"

text \<open>
  \<open>Object.entries\<close>: the array-index keys in ascending order, then the other keys in
  creation order.
\<close>

definition isArrayIndex :: "int \<Rightarrow> bool" where
  "isArrayIndex k \<longleftrightarrow> 0 \<le> k \<and> k < 2 ^ 32 - 1"

definition Object_entries :: "'v obj \<Rightarrow> 'v obj" where
  "Object_entries ps =
     sort_key fst (filter (\<lambda>p. isArrayIndex (fst p)) ps) @
     filter (\<lambda>p. \<not> isArrayIndex (fst p)) ps"

subsection \<open>computeCategoriesBreakdown\<close>

record cat_item =
  categoryId :: int

record list_item = cat_item +
  listId :: int

record breakdown_row = cat_item +
  categoryName :: jsstring
  quantity :: nat
  percent :: jsnum

text \<open>
  The number that the string \<open>x.toFixed(2)\<close> denotes, for a finite \<open>x\<close> below \<open>10 ^ 21\<close>:
  the nearest multiple of \<open>1/100\<close>, the larger one at a tie.
\<close>

definition toFixed2 :: "rat \<Rightarrow> rat" where
  "toFixed2 x = (if 0 \<le> x then of_int \<lfloor>x * 100 + 1 / 2\<rfloor> / 100
                 else - (of_int \<lfloor>- x * 100 + 1 / 2\<rfloor> / 100))"

text \<open>\<open>Number(x.toFixed(2))\<close>: the string is parsed back to the nearest binary64 value.\<close>

fun Number_toFixed2 :: "jsnum \<Rightarrow> jsnum" where
  "Number_toFixed2 (Fin x) = (if \<bar>x\<bar> < 10 ^ 21 then fl (toFixed2 x) else Fin x)"
| "Number_toFixed2 n = n"

text \<open>The reducer \<open>acc[item.categoryId] = (acc[item.categoryId] || 0) + 1\<close>.\<close>

definition count_step :: "nat obj \<Rightarrow> 'a cat_item_scheme \<Rightarrow> nat obj" where
  "count_step acc item =
     obj_set (categoryId item)
       ((case map_of acc (categoryId item) of None \<Rightarrow> 0 | Some c \<Rightarrow> c) + 1) acc"

definition unknown :: jsstring where
  "unknown = lit ''Unknown''"

definition breakdown_entry :: "nat \<Rightarrow> (int \<rightharpoonup> jsstring) \<Rightarrow> int \<times> nat \<Rightarrow> breakdown_row" where
  "breakdown_entry totalQuantity categoryMap e =
     \<lparr>categoryId = fst e,
      categoryName =
        (case categoryMap (fst e) of
           None \<Rightarrow> unknown
         | Some name \<Rightarrow> if name = [] then unknown else name),
      quantity = snd e,
      percent =
        (if 0 < totalQuantity
         then Number_toFixed2
                (js_mul (js_div (Fin (of_nat (snd e))) (Fin (of_nat totalQuantity))) (Fin 100))
         else Fin 0)\<rparr>"

definition computeCategoriesBreakdown ::
  "'a cat_item_scheme list \<Rightarrow> (int \<rightharpoonup> jsstring) \<Rightarrow> breakdown_row list" where
  "computeCategoriesBreakdown items categoryMap =
     (let totalQuantity = length items;
          counts = foldl count_step [] items
      in sort_key (\<lambda>r. - int (quantity r))
           (map (breakdown_entry totalQuantity categoryMap) (Object_entries counts)))"

subsection \<open>Queries of the service\<close>

text \<open>
  \<open>prisma.list.findMany\<close> with \<open>createdAt: { gte: start, lt: end }\<close>, ordered by
  \<open>createdAt\<close> ascending. The client refuses an Invalid Date.
\<close>

fun getListsInRange :: "db \<Rightarrow> jsnum \<Rightarrow> jsnum \<Rightarrow> exn + list_row list" where
  "getListsInRange d (Fin s) (Fin e) =
     Inr (sort_key l_createdAt
            (filter (\<lambda>l. s \<le> of_int (l_createdAt l) \<and> of_int (l_createdAt l) < e) (db_lists d)))"
| "getListsInRange d _ _ = Inl StorageError"

definition getItemsForLists :: "db \<Rightarrow> int list \<Rightarrow> list_item list" where
  "getItemsForLists d listIds =
     (if listIds = [] then []
      else map (\<lambda>i. \<lparr>categoryId = i_categoryId i, listId = i_listId i\<rparr>)
             (filter (\<lambda>i. i_listId i \<in> set listIds) (db_items d)))"

text \<open>\<open>[...new Set(xs)]\<close>: the first occurrences, in order.\<close>

definition Set_values :: "'a list \<Rightarrow> 'a list" where
  "Set_values xs = rev (remdups (rev xs))"

text \<open>\<open>new Map(entries)\<close>: a later entry replaces an earlier one with the same key.\<close>

definition Map_of_entries :: "('k \<times> 'v) list \<Rightarrow> ('k \<rightharpoonup> 'v)" where
  "Map_of_entries es = map_of (rev es)"

definition getCategoryMap :: "db \<Rightarrow> 'a cat_item_scheme list \<Rightarrow> (int \<rightharpoonup> jsstring)" where
  "getCategoryMap d items =
     (let categoryIds = Set_values (map categoryId items)
      in if categoryIds = [] then Map.empty
         else Map_of_entries
                (map (\<lambda>c. (c_id c, c_name c))
                   (filter (\<lambda>c. c_id c \<in> set categoryIds) (db_categories d))))"

definition group_step :: "list_item list obj \<Rightarrow> list_item \<Rightarrow> list_item list obj" where
  "group_step acc item =
     obj_set (listId item)
       ((case map_of acc (listId item) of None \<Rightarrow> [] | Some listItems \<Rightarrow> listItems) @ [item]) acc"

definition groupItemsByList :: "list_item list \<Rightarrow> list_item list obj" where
  "groupItemsByList items = foldl group_step [] items"

text \<open>\<open>itemsGrouped[id] || []\<close>\<close>

definition grouped_or_empty :: "list_item list obj \<Rightarrow> int \<Rightarrow> list_item list" where
  "grouped_or_empty itemsGrouped k = (case map_of itemsGrouped k of None \<Rightarrow> [] | Some xs \<Rightarrow> xs)"

section \<open>Responses and the error handler\<close>

record list_stats = list_row +
  totalQuantity :: nat
  categories :: "breakdown_row list"

datatype body =
    ErrorBody jsstring
  | EngineErrorBody exn
  | ErrorsBody errors
  | MonthlyBody "jsstring option" "list_stats list"
  | ListStatsBody list_stats
  | ItemBody item_row
  | ItemsBody "item_row list"
  | NoBody

record response =
  status :: nat
  body :: body

text \<open>
  middleware/errorHandler.js: \<open>err.statusCode || 500\<close> and
  \<open>err.message || 'Internal server error'\<close>, sent as \<open>{ error: message }\<close>. An error without
  a status code keeps the message its source gave it.
\<close>

fun errorHandler :: "exn \<Rightarrow> response" where
  "errorHandler (HttpError statusCode message) =
     \<lparr>status = (if statusCode = 0 then 500 else statusCode),
      body = ErrorBody (if message = [] then lit ''Internal server error'' else message)\<rparr>"
| "errorHandler err = \<lparr>status = 500, body = EngineErrorBody err\<rparr>"

section \<open>controllers/statistic.js\<close>

text \<open>
  The module imports \<open>asyncHandler\<close> and the statistics service only. The name \<open>prisma\<close>
  in \<open>getStatsByList\<close> is therefore a free identifier, looked up on the global object,
  where prisma/client.js stores the client unless \<open>NODE_ENV\<close> is \<open>production\<close>.
\<close>

record env =
  NODE_ENV :: "jsstring option"

definition globalThis_prisma :: "env \<Rightarrow> bool" where
  "globalThis_prisma e \<longleftrightarrow> NODE_ENV e \<noteq> Some (lit ''production'')"

definition list_stats_of :: "db \<Rightarrow> list_item list obj \<Rightarrow> (int \<rightharpoonup> jsstring) \<Rightarrow> list_row \<Rightarrow> list_stats" where
  "list_stats_of d itemsGrouped categoryMap list =
     \<lparr>l_id = l_id list, l_name = l_name list, l_createdAt = l_createdAt list,
      totalQuantity = length (grouped_or_empty itemsGrouped (l_id list)),
      categories = computeCategoriesBreakdown (grouped_or_empty itemsGrouped (l_id list)) categoryMap\<rparr>"

definition getMonthlyStats :: "db \<Rightarrow> jsstring option \<Rightarrow> response" where
  "getMonthlyStats d month =
     (case parseMonth month of
        Inl err \<Rightarrow> errorHandler err
      | Inr (start, end) \<Rightarrow>
          (case getListsInRange d start end of
             Inl err \<Rightarrow> errorHandler err
           | Inr ls \<Rightarrow>
               if length ls = 0 then \<lparr>status = 200, body = MonthlyBody month []\<rparr>
               else
                 let items = getItemsForLists d (map l_id ls);
                     categoryMap = getCategoryMap d items;
                     itemsGrouped = groupItemsByList items;
                     result = map (list_stats_of d itemsGrouped categoryMap) ls
                 in \<lparr>status = 200, body = MonthlyBody month result\<rparr>))"

definition msg_listId_number :: jsstring where
  "msg_listId_number = lit ''listId must be a number''"

definition msg_list_not_found :: jsstring where
  "msg_list_not_found = lit ''List not found''"

definition getStatsByList :: "env \<Rightarrow> db \<Rightarrow> jsstring \<Rightarrow> response" where
  "getStatsByList e d id_param =
     (let listId = StringToNumber id_param
      in if listId = NaN then errorHandler (HttpError 400 msg_listId_number)
         else if globalThis_prisma e then
           (case prisma_Int listId of
              Inl err \<Rightarrow> errorHandler err
            | Inr i \<Rightarrow>
                (case find (\<lambda>l. l_id l = i) (db_lists d) of
                   None \<Rightarrow> errorHandler (HttpError 404 msg_list_not_found)
                 | Some list \<Rightarrow>
                     let items = map (\<lambda>it. \<lparr>categoryId = i_categoryId it\<rparr>)
                                   (filter (\<lambda>it. i_listId it = i) (db_items d));
                         categoryMap = getCategoryMap d items;
                         categories = computeCategoriesBreakdown items categoryMap
                     in \<lparr>status = 200,
                         body = ListStatsBody
                           \<lparr>l_id = l_id list, l_name = l_name list, l_createdAt = l_createdAt list,
                            totalQuantity = length items, categories = categories\<rparr>\<rparr>))
         else errorHandler (ReferenceError ''prisma''))"

section \<open>Notions of the specification\<close>

text \<open>
  The pattern \<open>YYYY-MM\<close> in the specification's words: seven code units, four digits, a
  hyphen, two digits.
\<close>

definition matches_YYYY_MM :: "jsstring \<Rightarrow> bool" where
  "matches_YYYY_MM s \<longleftrightarrow>
     length s = 7 \<and> isDigit (s ! 0) \<and> isDigit (s ! 1) \<and> isDigit (s ! 2) \<and> isDigit (s ! 3) \<and>
     s ! 4 = 45 \<and> isDigit (s ! 5) \<and> isDigit (s ! 6)"

definition decimal_value :: "jsstring \<Rightarrow> nat" where
  "decimal_value ds = foldl (\<lambda>a c. a * 10 + (c - 48)) 0 ds"

definition year_digits :: "jsstring \<Rightarrow> int" where
  "year_digits s = int (decimal_value (take 4 s))"

definition month_digits :: "jsstring \<Rightarrow> int" where
  "month_digits s = int (decimal_value (drop 5 s))"

text \<open>
  The calendar: the length of month \<open>mn\<close> (0 for January to 11 for December) of year \<open>y\<close>,
  and the time value of 00:00 UTC on its first day.
\<close>

definition days_in_month :: "int \<Rightarrow> int \<Rightarrow> int" where
  "days_in_month y mn =
     (if mn = 1 then (if (y mod 4 = 0 \<and> y mod 100 \<noteq> 0) \<or> y mod 400 = 0 then 29 else 28)
      else if mn = 3 \<or> mn = 5 \<or> mn = 8 \<or> mn = 10 then 30 else 31)"

definition first_of_month :: "int \<Rightarrow> int \<Rightarrow> int" where
  "first_of_month y mn = (DayFromYear y + DaysBeforeMonth (DaysInYear y = 366) mn) * msPerDay"

definition first_of_next_month :: "int \<Rightarrow> int \<Rightarrow> int" where
  "first_of_next_month y mn = (if mn = 11 then first_of_month (y + 1) 0 else first_of_month y (mn + 1))"

text \<open>The item rows of a list, and the list a row of statistics is about.\<close>

definition item_rows_of :: "db \<Rightarrow> int \<Rightarrow> item_row list" where
  "item_rows_of d k = filter (\<lambda>i. i_listId i = k) (db_items d)"

definition list_of :: "list_stats \<Rightarrow> list_row" where
  "list_of row = \<lparr>l_id = l_id row, l_name = l_name row, l_createdAt = l_createdAt row\<rparr>"

section \<open>Example data\<close>

text \<open>
  The example of the specification: a month with two lists, one holding three items of
  category 7 and one of category 3, the other empty.
\<close>

definition example_items :: "cat_item list" where
  "example_items = [\<lparr>categoryId = 7\<rparr>, \<lparr>categoryId = 3\<rparr>, \<lparr>categoryId = 7\<rparr>, \<lparr>categoryId = 7\<rparr>]"

definition example_map :: "int \<rightharpoonup> jsstring" where
  "example_map = [7 \<mapsto> lit ''X'']"

definition example_list1 :: list_row where
  "example_list1 = \<lparr>l_id = 1, l_name = lit ''Weekly'', l_createdAt = 1707000000000\<rparr>"

definition example_list2 :: list_row where
  "example_list2 = \<lparr>l_id = 2, l_name = lit ''Party'', l_createdAt = 1708000000000\<rparr>"

definition example_item :: "int \<Rightarrow> rat \<Rightarrow> int \<Rightarrow> item_row" where
  "example_item k q c =
     \<lparr>i_id = k, i_name = lit ''item'', i_quantity = q, i_brand = None, i_comments = None,
      i_bought = False, i_addedAt = 1707000000000, i_categoryId = c, i_listId = 1, i_unitId = 1\<rparr>"

definition example_db :: db where
  "example_db =
     \<lparr>db_lists = [example_list1, example_list2],
      db_items = [example_item 1 5 7, example_item 2 2 3, example_item 3 12 7, example_item 4 1 7],
      db_categories = [\<lparr>c_id = 7, c_name = lit ''X'', c_iconName = None\<rparr>,
                       \<lparr>c_id = 3, c_name = lit ''Y'', c_iconName = None\<rparr>],
      db_units = [1]\<rparr>"

definition production :: env where
  "production = \<lparr>NODE_ENV = Some (lit ''production'')\<rparr>"

definition development :: env where
  "development = \<lparr>NODE_ENV = None\<rparr>"

section \<open>Properties of the rounding to binary64\<close>

lemma quotient_of_pos: "0 < x \<Longrightarrow> quotient_of x = (a, b) \<Longrightarrow> 0 < a \<and> 0 < b \<and> x = of_int a / of_int b"
  by (metis quotient_of_denom_pos quotient_of_div zero_less_Fract_iff Fract_of_int_quotient)

lemma ilog2_le: assumes "0 < x" shows "2 powi (ilog2 x) \<le> x"
proof -
  obtain a b where q: "quotient_of x = (a, b)" by (cases "quotient_of x")
  from quotient_of_pos[OF assms q] have a: "0 < a" and b: "0 < b" and x: "x = of_int a / of_int b" by auto
  show ?thesis
  proof (cases "(2::rat) powi (bitlen a - bitlen b) \<le> x")
    case True
    then show ?thesis by (simp add: ilog2_def q)
  next
    case False
    then have e: "ilog2 x = bitlen a - bitlen b - 1" by (simp add: ilog2_def q)
    have la: "(2::int) ^ nat (bitlen a - 1) \<le> a" using bitlen_bounds[OF a] by simp
    have lb: "b < (2::int) ^ nat (bitlen b)" using bitlen_bounds[OF b] by simp
    have ba: "1 \<le> bitlen a" using a by (simp add: bitlen_alt_def)
    have bb: "0 \<le> bitlen b" by (rule bitlen_nonneg)
    have "(2::rat) powi (bitlen a - 1) \<le> of_int a"
    proof -
      have "(of_int ((2::int) ^ nat (bitlen a - 1)) :: rat) \<le> of_int a" using la by (simp only: of_int_le_iff)
      then show ?thesis using ba by (simp add: power_int_def)
    qed
    moreover have "(of_int b :: rat) \<le> 2 powi (bitlen b)"
    proof -
      have "(of_int b :: rat) \<le> of_int ((2::int) ^ nat (bitlen b))" using lb by (simp only: of_int_le_iff)
      then show ?thesis using bb by (simp add: power_int_def)
    qed
    ultimately have "(2::rat) powi (bitlen a - 1) / 2 powi (bitlen b) \<le> of_int a / of_int b"
      using a b by (intro frac_le) auto
    moreover have "(2::rat) powi (bitlen a - 1) / 2 powi (bitlen b) = 2 powi (bitlen a - bitlen b - 1)"
    proof -
      have "bitlen a - bitlen b - 1 = (bitlen a - 1) - bitlen b" by simp
      then show ?thesis by (simp only: power_int_diff[of "2::rat", simplified])
    qed
    ultimately show ?thesis using e x by simp
  qed
qed

lemma round_half_even_err: "\<bar>of_int (round_half_even q) - q\<bar> \<le> 1 / 2"
proof -
  have "of_int \<lfloor>q\<rfloor> \<le> q" "q < of_int \<lfloor>q\<rfloor> + 1" by linarith+
  then show ?thesis
    unfolding round_half_even_def Let_def by (auto simp: abs_le_iff)
qed

lemma fl_small:
  assumes "0 \<le> a" "a \<le> 128"
  shows "\<exists>y. fl a = Fin y \<and> 0 \<le> y \<and> \<bar>y - a\<bar> \<le> 1 / 2 ^ 46"
proof (cases "a = 0")
  case True
  then show ?thesis by (simp add: fl_def)
next
  case False
  with assms have pos: "0 < a" by simp
  define e where "e = max (ilog2 a) (- 1022)"
  define u :: rat where "u = 2 powi (e - 52)"
  define n where "n = round_half_even (a / u)"
  have upos: "0 < u" by (simp add: u_def)
  have le7: "(2::rat) powi (ilog2 a) \<le> 2 powi (7::int)" using ilog2_le[OF pos] assms by simp
  have "ilog2 a \<le> 7" by (rule power_int_le_imp_le_exp[OF _ le7]) simp_all
  then have e7: "e \<le> 7" by (simp add: e_def)
  have "u \<le> 2 powi (-45)" unfolding u_def using e7 by (intro power_int_increasing) auto
  then have u45: "u \<le> 1 / 2 ^ 45" by (simp add: power_int_def field_simps)
  have "\<bar>of_int n - a / u\<bar> \<le> 1 / 2" unfolding n_def by (rule round_half_even_err)
  then have "\<bar>of_int n - a / u\<bar> * u \<le> 1 / 2 * u" using upos by (intro mult_right_mono) auto
  moreover have "of_int n * u - a = (of_int n - a / u) * u" using upos by (simp add: field_simps)
  then have "\<bar>of_int n * u - a\<bar> = \<bar>of_int n - a / u\<bar> * u" using upos by (simp add: abs_mult)
  ultimately have err: "\<bar>of_int n * u - a\<bar> \<le> u / 2" by simp
  have "0 \<le> a / u" using pos upos by simp
  then have "0 \<le> n" unfolding n_def round_half_even_def Let_def by (auto simp: zero_le_floor) 
  then have y0: "0 \<le> of_int n * u" using upos by simp
  have "of_int n * u \<le> a + u / 2" using err by linarith
  also have "\<dots> \<le> 128 + 1" using assms u45 by simp
  also have "\<dots> < 2 powi 1024" by simp
  finally have lt: "\<not> 2 powi 1024 \<le> of_int n * u" by simp
  have "fl a = Fin (of_int n * u)"
    using pos lt by (simp add: fl_def Let_def e_def[symmetric] u_def[symmetric] n_def[symmetric])
  moreover have "u / 2 \<le> 1 / 2 ^ 46" using u45 by simp
  then have "\<bar>of_int n * u - a\<bar> \<le> 1 / 2 ^ 46" using err by linarith
  ultimately show ?thesis using y0 by blast
qed

lemma round_half_even_of_int: "round_half_even (of_int m) = m"
  by (simp add: round_half_even_def)

lemma fl_dyadic:
  assumes i: "\<bar>i\<bar> < 2 ^ 53" and k: "k \<le> 1074"
  shows "fl (of_int i / 2 ^ k) = Fin (of_int i / 2 ^ k)"
proof (cases "i = 0")
  case True
  then show ?thesis by (simp add: fl_def)
next
  case False
  define x :: rat where "x = of_int i / 2 ^ k"
  define a :: rat where "a = \<bar>x\<bar>"
  have a_eq: "a = of_int \<bar>i\<bar> / 2 ^ k" by (simp add: a_def x_def)
  have pos: "0 < a" using False by (simp add: a_eq)
  have x0: "x \<noteq> 0" using False by (simp add: x_def)
  define e where "e = max (ilog2 a) (- 1022)"
  have "of_int \<bar>i\<bar> < (2::rat) ^ 53" using i
    by (metis of_int_less_iff of_int_numeral of_int_power)
  then have "a < 2 ^ 53 / 2 ^ k" unfolding a_eq by (simp add: divide_strict_right_mono)
  also have "\<dots> = 2 powi (53 - int k)" by (simp add: power_int_diff)
  finally have alt: "a < 2 powi (53 - int k)" .
  with ilog2_le[OF pos] have lt: "(2::rat) powi (ilog2 a) < 2 powi (53 - int k)" by simp
  have "ilog2 a < 53 - int k"
  proof (rule ccontr)
    assume "\<not> ilog2 a < 53 - int k"
    then have "53 - int k \<le> ilog2 a" by simp
    then have "(2::rat) powi (53 - int k) \<le> 2 powi (ilog2 a)" by (intro power_int_increasing) auto
    with lt show False by simp
  qed
  then have e52: "e \<le> 52 - int k" using k by (simp add: e_def)
  define n where "n = nat (52 - int k - e)"
  have u: "(2::rat) powi (e - 52) = 1 / (2 ^ k * 2 ^ n)"
  proof -
    have "e - 52 = - int (k + n)" using e52 by (simp add: n_def)
    then have "(2::rat) powi (e - 52) = 2 powi (- int (k + n))" by (simp only:)
    also have "\<dots> = 1 / 2 ^ (k + n)" by (simp only: power_int_minus_divide power_int_of_nat)
    finally show ?thesis by (simp only: power_add)
  qed
  have "a / (2 powi (e - 52)) = of_int (\<bar>i\<bar> * 2 ^ n)" by (simp add: u a_eq)
  then have r: "round_half_even (a / (2 powi (e - 52))) = \<bar>i\<bar> * 2 ^ n"
    by (simp only: round_half_even_of_int)
  have y: "of_int (round_half_even (a / (2 powi (e - 52)))) * (2::rat) powi (e - 52) = a"
  proof -
    have "of_int (round_half_even (a / (2 powi (e - 52)))) * (2::rat) powi (e - 52) =
          of_int (\<bar>i\<bar> * 2 ^ n) * (1 / (2 ^ k * 2 ^ n))" by (subst r) (simp only: u)
    also have "\<dots> = of_int \<bar>i\<bar> / 2 ^ k" by simp
    finally show ?thesis by (simp only: a_eq)
  qed
  have "2 powi (53 - int k) \<le> (2::rat) powi 1024" by (intro power_int_increasing) auto
  with alt have nov: "\<not> 2 powi 1024 \<le> a" by simp
  have "fl x = Fin (if 0 < x then a else - a)"
    using x0 nov by (simp add: fl_def Let_def a_def[symmetric] e_def[symmetric] y)
  then show ?thesis unfolding x_def[symmetric] by (simp add: a_def)
qed


lemma fl_int: "\<bar>i\<bar> < 2 ^ 53 \<Longrightarrow> fl (of_int i) = Fin (of_int i)"
  using fl_dyadic[of i 0] by simp

lemma fl_nat: "n < 2 ^ 53 \<Longrightarrow> fl (of_nat n) = Fin (of_nat n)"
  using fl_int[of "int n"] by simp



section \<open>Properties of the string conversions\<close>

lemma isDigit_not_ws: "isDigit c \<Longrightarrow> \<not> isWhiteSpace c"
  by (auto simp: isDigit_def isWhiteSpace_def)

lemma trim_id:
  assumes "s \<noteq> []" "\<not> isWhiteSpace (hd s)" "\<not> isWhiteSpace (last s)"
  shows "trim s = s"
proof -
  from assms obtain x xs where s: "s = x # xs" by (cases s) auto
  have 1: "dropWhile isWhiteSpace s = s" using assms s by simp
  from assms obtain ys y where s2: "s = ys @ [y]" by (cases s rule: rev_cases) auto
  have "dropWhile isWhiteSpace (rev s) = rev s" using assms s2 by simp
  with 1 show ?thesis by (simp add: trim_def)
qed

lemma digitsValue_digits:
  "list_all isDigit ds \<Longrightarrow>
   digitsValue 10 acc ds = Some (foldl (\<lambda>a c. a * 10 + (c - 48)) acc ds)"
  by (induction ds arbitrary: acc) (auto simp: isDigit_def digitOf_def)

lemma decimal_bound:
  "list_all isDigit ds \<Longrightarrow>
   foldl (\<lambda>a c. a * 10 + (c - 48)) acc ds < (acc + 1) * 10 ^ length ds"
proof (induction ds arbitrary: acc)
  case Nil
  then show ?case by simp
next
  case (Cons c cs)
  from Cons.prems have cs: "list_all isDigit cs" by simp
  from Cons.prems have c: "c - 48 \<le> 9" by (auto simp: isDigit_def)
  have "foldl (\<lambda>a c. a * 10 + (c - 48)) (acc * 10 + (c - 48)) cs < (acc * 10 + (c - 48) + 1) * 10 ^ length cs"
    by (rule Cons.IH[OF cs])
  also have "\<dots> \<le> ((acc + 1) * 10) * 10 ^ length cs"
    using c by (intro mult_right_mono) auto
  finally show ?case by (simp add: algebra_simps)
qed

lemma StringToNumber_digits:
  assumes ne: "ds \<noteq> []" and dg: "list_all isDigit ds" and small: "decimal_value ds < 2 ^ 53"
  shows "StringToNumber ds = Fin (of_nat (decimal_value ds))"
proof -
  from ne obtain c r where ds: "ds = c # r" by (cases ds) auto
  have c: "isDigit c" using dg ds by simp
  have "isDigit (last ds)" using dg ne by (simp add: list_all_iff)
  then have t: "trim ds = ds" using ne c ds by (intro trim_id) (auto simp: isDigit_not_ws)
  have c1: "c \<noteq> 43" "c \<noteq> 45" using c by (auto simp: isDigit_def)
  have pre: "\<not> (c = 48 \<and> r \<noteq> [] \<and> hd r \<in> {120, 88, 111, 79, 98, 66})"
  proof
    assume a: "c = 48 \<and> r \<noteq> [] \<and> hd r \<in> {120, 88, 111, 79, 98, 66}"
    then have "isDigit (hd r)" using dg ds by (cases r) auto
    with a show False by (auto simp: isDigit_def)
  qed
  have inf: "ds \<noteq> lit ''Infinity''" using c ds by (auto simp: lit_def isDigit_def)
  have tw: "takeWhile isDigit ds = ds" "dropWhile isDigit ds = []"
    using dg by (auto simp: list_all_iff takeWhile_eq_all_conv dropWhile_eq_Nil_conv)
  have dv: "digitsValue 10 0 ds = Some (decimal_value ds)"
    using digitsValue_digits[OF dg, of 0] by (simp add: decimal_value_def)
  have "StrUnsignedDecimalLiteral ds = Some (fl (of_nat (decimal_value ds)))"
    using inf ne by (simp add: StrUnsignedDecimalLiteral_def Let_def tw dv exponentPart_def)
  then have sud: "StrUnsignedDecimalLiteral (c # r) = Some (fl (of_nat (decimal_value ds)))"
    by (simp only: ds)
  have t': "trim (c # r) = c # r" using t ds by simp
  have "StringToNumber (c # r) = fl (of_nat (decimal_value ds))"
    unfolding StringToNumber_def Let_def t' list.case
    by (subst if_not_P[OF pre]) (simp add: c1 sud)
  then have "StringToNumber ds = fl (of_nat (decimal_value ds))" by (simp only: ds)
  then show ?thesis using fl_nat[OF small] by simp
qed

lemma matches_iff: "month_regex_test s = matches_YYYY_MM s"
proof (cases "length s = 7")
  case True
  then obtain a b c d h m n where "s = [a, b, c, d, h, m, n]"
    by (auto simp: length_Suc_conv eval_nat_numeral)
  then show ?thesis by (simp add: month_regex_test_def matches_YYYY_MM_def)
next
  case False
  then have "\<not> matches_YYYY_MM s" by (simp add: matches_YYYY_MM_def)
  moreover have "\<not> month_regex_test s" using False
    by (auto simp: month_regex_test_def split: list.splits)
  ultimately show ?thesis by simp
qed

section \<open>Properties of the counting objects\<close>

lemma map_of_obj_set: "map_of (obj_set k v ps) = (map_of ps)(k \<mapsto> v)"
proof (cases "map_of ps k")
  case None
  then show ?thesis
    by (auto simp: obj_set_def map_of_append fun_eq_iff map_add_def split: option.splits)
next
  case (Some old)
  have "map_of (map (\<lambda>p. if fst p = k then (k, v) else p) qs) = (\<lambda>x. if x = k then (if k \<in> fst ` set qs then Some v else None) else map_of qs x)" for qs
    by (induction qs) (auto simp: fun_eq_iff)
  moreover have "k \<in> fst ` set ps" using Some by (metis map_of_eq_None_iff option.distinct(1))
  ultimately show ?thesis using Some by (auto simp: obj_set_def fun_eq_iff)
qed

lemma keys_obj_set: "map fst (obj_set k v ps) = (if k \<in> fst ` set ps then map fst ps else map fst ps @ [k])"
proof (cases "map_of ps k")
  case None
  then have "k \<notin> fst ` set ps" by (simp add: map_of_eq_None_iff)
  with None show ?thesis by (simp add: obj_set_def)
next
  case (Some old)
  then have "k \<in> fst ` set ps" by (metis map_of_eq_None_iff option.distinct(1))
  moreover have "map fst (map (\<lambda>p. if fst p = k then (k, v) else p) ps) = map fst ps"
    by (induction ps) auto
  ultimately show ?thesis using Some by (simp add: obj_set_def)
qed

lemma distinct_obj_set: "distinct (map fst ps) \<Longrightarrow> distinct (map fst (obj_set k v ps))"
  by (auto simp: keys_obj_set)

lemma sum_obj_set_new:
  "map_of ps k = None \<Longrightarrow> sum_list (map snd (obj_set k v ps)) = sum_list (map snd ps) + (v::nat)"
  by (simp add: obj_set_def)

lemma sum_replace:
  "distinct (map fst ps) \<Longrightarrow> map_of ps k = Some c \<Longrightarrow>
   sum_list (map snd (map (\<lambda>p. if fst p = k then (k, v) else p) ps)) + c = sum_list (map snd ps) + (v::nat)"
proof (induction ps)
  case Nil
  then show ?case by simp
next
  case (Cons p ps)
  obtain a b where p: "p = (a, b)" by (cases p)
  show ?case
  proof (cases "a = k")
    case True
    with Cons.prems p have "k \<notin> fst ` set ps" and c: "c = b" by auto
    then have "map (\<lambda>q. if fst q = k then (k, v) else q) ps = ps"
      by (induction ps) auto
    with True p c show ?thesis by simp
  next
    case False
    with Cons.prems p have "distinct (map fst ps)" "map_of ps k = Some c" by auto
    from Cons.IH[OF this] False p show ?thesis by simp
  qed
qed

lemma sum_obj_set_old:
  "distinct (map fst ps) \<Longrightarrow> map_of ps k = Some c \<Longrightarrow>
   sum_list (map snd (obj_set k v ps)) + c = sum_list (map snd ps) + (v::nat)"
  using sum_replace[of ps k c v] by (simp add: obj_set_def)

lemma map_of_count_step:
  "map_of (count_step acc x) =
     (map_of acc)(categoryId x \<mapsto> (case map_of acc (categoryId x) of None \<Rightarrow> 0 | Some c \<Rightarrow> c) + 1)"
  by (simp add: count_step_def map_of_obj_set)

lemma distinct_count_step:
  "distinct (map fst acc) \<Longrightarrow> distinct (map fst (count_step acc x))"
  by (simp add: count_step_def distinct_obj_set)

lemma keys_count_step:
  "fst ` set (count_step acc x) = insert (categoryId x) (fst ` set acc)"
proof -
  have "set (map fst (count_step acc x)) = insert (categoryId x) (set (map fst acc))"
    unfolding count_step_def keys_obj_set by auto
  then show ?thesis by simp
qed

lemma sum_count_step:
  assumes "distinct (map fst acc)"
  shows "sum_list (map snd (count_step acc x)) = sum_list (map snd acc) + 1"
proof (cases "map_of acc (categoryId x)")
  case None
  then show ?thesis by (simp add: count_step_def sum_obj_set_new)
next
  case (Some c)
  from sum_obj_set_old[OF assms Some, of "c + 1"] Some show ?thesis
    by (simp add: count_step_def)
qed

lemma counts_distinct:
  "distinct (map fst acc) \<Longrightarrow> distinct (map fst (foldl count_step acc items))"
  by (induction items arbitrary: acc) (simp_all add: distinct_count_step)

lemma counts_keys:
  "fst ` set (foldl count_step acc items) = fst ` set acc \<union> categoryId ` set items"
  by (induction items arbitrary: acc) (simp_all add: keys_count_step)

lemma counts_sum:
  "distinct (map fst acc) \<Longrightarrow>
   sum_list (map snd (foldl count_step acc items)) = sum_list (map snd acc) + length items"
  by (induction items arbitrary: acc) (simp_all add: distinct_count_step sum_count_step)

lemma counts_lookup:
  "map_of (foldl count_step acc items) k =
     (case map_of acc k of
        None \<Rightarrow> if k \<in> categoryId ` set items then Some (count_list (map categoryId items) k) else None
      | Some c \<Rightarrow> Some (c + count_list (map categoryId items) k))"
proof (induction items arbitrary: acc)
  case Nil
  then show ?case by (simp split: option.splits)
next
  case (Cons x xs)
  have "foldl count_step acc (x # xs) = foldl count_step (count_step acc x) xs" by simp
  then show ?case
    by (simp only: Cons.IH map_of_count_step) (auto split: option.splits)
qed

lemma mset_Object_entries: "mset (Object_entries ps) = mset ps"
  by (simp add: Object_entries_def)

section \<open>Properties of computeCategoriesBreakdown\<close>

lemma toFixed2_err: "0 \<le> x \<Longrightarrow> \<bar>toFixed2 x - x\<bar> \<le> 1 / 200 \<and> 0 \<le> toFixed2 x"
proof -
  assume x: "0 \<le> x"
  define n where "n = \<lfloor>x * 100 + 1 / 2\<rfloor>"
  have "of_int n \<le> x * 100 + 1 / 2" "x * 100 + 1 / 2 < of_int n + 1" unfolding n_def by linarith+
  moreover have "0 \<le> n" unfolding n_def using x by (simp add: zero_le_floor)
  then have "(0::rat) \<le> of_int n" by simp
  moreover have "toFixed2 x = of_int n / 100" using x by (simp add: toFixed2_def n_def)
  ultimately show ?thesis by linarith
qed

lemma percent_bound:
  assumes c: "1 \<le> c" and t: "c \<le> t"
  shows "\<exists>p. Number_toFixed2 (js_mul (js_div (Fin (of_nat c)) (Fin (of_nat t))) (Fin 100)) = Fin p \<and>
             \<bar>p - 100 * of_nat c / of_nat t\<bar> \<le> 1 / 100"
proof -
  define q :: rat where "q = of_nat c / of_nat t"
  have q01: "0 \<le> q" "q \<le> 1" using c t by (simp_all add: q_def)
  have eps: "(1::rat) / 2 ^ 46 \<le> 1 / 100000" by simp
  from fl_small[of q] q01 obtain x1 where x1: "fl q = Fin x1" "0 \<le> x1" "\<bar>x1 - q\<bar> \<le> 1 / 2 ^ 46" by auto
  have d: "js_div (Fin (of_nat c)) (Fin (of_nat t)) = Fin x1" using c t x1 by (simp add: q_def)
  have x1b: "x1 * 100 \<le> 128" "0 \<le> x1 * 100" using x1 q01 eps by linarith+
  from fl_small[of "x1 * 100"] x1b obtain x2 where x2: "fl (x1 * 100) = Fin x2" "0 \<le> x2" "\<bar>x2 - x1 * 100\<bar> \<le> 1 / 2 ^ 46" by auto
  have m: "js_mul (Fin x1) (Fin 100) = Fin x2" using x2 by simp
  have x2b: "x2 \<le> 101" using x2 x1 q01 eps by linarith
  then have small: "\<bar>x2\<bar> < 10 ^ 21" using x2 by simp
  from toFixed2_err[OF x2(2)] have w: "\<bar>toFixed2 x2 - x2\<bar> \<le> 1 / 200" "0 \<le> toFixed2 x2" by auto
  have wb: "toFixed2 x2 \<le> 128" using w x2b by linarith
  from fl_small[of "toFixed2 x2"] w wb obtain p where p: "fl (toFixed2 x2) = Fin p" "\<bar>p - toFixed2 x2\<bar> \<le> 1 / 2 ^ 46" by auto
  have "Number_toFixed2 (js_mul (js_div (Fin (of_nat c)) (Fin (of_nat t))) (Fin 100)) = Fin p"
    using d m small p by simp
  moreover have "\<bar>p - 100 * q\<bar> \<le> 1 / 100" using p(2) w(1) x2(3) x1(3) eps by linarith
  ultimately show ?thesis by (auto simp: q_def)
qed

lemma rows_mset:
  "mset (computeCategoriesBreakdown items m) =
     image_mset (breakdown_entry (length items) m) (mset (foldl count_step [] items))"
  by (simp add: computeCategoriesBreakdown_def Let_def mset_Object_entries)

lemma rows_set:
  "set (computeCategoriesBreakdown items m) =
     breakdown_entry (length items) m ` set (foldl count_step [] items)"
proof -
  have "set_mset (mset (computeCategoriesBreakdown items m)) =
        set_mset (image_mset (breakdown_entry (length items) m) (mset (foldl count_step [] items)))"
    by (simp only: rows_mset)
  then show ?thesis by simp
qed

lemma counts_entry:
  assumes "(k, c) \<in> set (foldl count_step [] items)"
  shows "k \<in> categoryId ` set items \<and> c = count_list (map categoryId items) k \<and> 1 \<le> c \<and> c \<le> length items"
proof -
  have "distinct (map fst (foldl count_step [] items))" by (simp add: counts_distinct)
  with assms have "map_of (foldl count_step [] items) k = Some c" by simp
  then have k: "k \<in> categoryId ` set items" and c: "c = count_list (map categoryId items) k"
    by (auto simp: counts_lookup split: if_splits)
  from k have "k \<in> set (map categoryId items)" by simp
  then have "0 < count_list (map categoryId items) k"
    using count_list_0_iff[of "map categoryId items" k] by auto
  moreover have "count_list (map categoryId items) k \<le> length (map categoryId items)"
    by (rule count_le_length)
  ultimately show ?thesis using k c by simp
qed

lemma rows_keys_mset:
  "mset (map categoryId (computeCategoriesBreakdown items m)) = mset (map fst (foldl count_step [] items))"
proof -
  have "mset (map categoryId (computeCategoriesBreakdown items m)) =
        image_mset categoryId (mset (computeCategoriesBreakdown items m))" by simp
  also have "\<dots> = image_mset fst (mset (foldl count_step [] items))"
    by (simp only: rows_mset) (simp add: image_mset.compositionality comp_def breakdown_entry_def)
  finally show ?thesis by simp
qed

lemma rows_distinct: "distinct (map categoryId (computeCategoriesBreakdown items m))"
  using rows_keys_mset[of items m] counts_distinct[of "[]" items]
  by (metis distinct.simps(1) list.simps(8) mset_eq_imp_distinct_iff)

lemma rows_keys: "categoryId ` set (computeCategoriesBreakdown items m) = categoryId ` set items"
proof -
  have "set (map categoryId (computeCategoriesBreakdown items m)) = set (map fst (foldl count_step [] items))"
    using rows_keys_mset[of items m] by (rule mset_eq_setD)
  then show ?thesis using counts_keys[of "[]" items] by simp
qed

lemma rows_length: "length (computeCategoriesBreakdown items m) = card (categoryId ` set items)"
proof -
  have "length (computeCategoriesBreakdown items m) = length (map categoryId (computeCategoriesBreakdown items m))" by simp
  also have "\<dots> = card (set (map categoryId (computeCategoriesBreakdown items m)))"
    using rows_distinct[of items m] by (simp only: distinct_card)
  finally show ?thesis using rows_keys[of items m] by simp
qed

lemma rows_quantity_sum:
  "sum_list (map quantity (computeCategoriesBreakdown items m)) = length items"
proof -
  have "sum_list (map quantity (computeCategoriesBreakdown items m)) =
        sum_mset (image_mset quantity (mset (computeCategoriesBreakdown items m)))"
    by (simp add: sum_mset_sum_list[symmetric])
  also have "\<dots> = sum_mset (image_mset snd (mset (foldl count_step [] items)))"
    by (simp only: rows_mset) (simp add: image_mset.compositionality comp_def breakdown_entry_def)
  also have "\<dots> = sum_list (map snd (foldl count_step [] items))"
    by (simp add: sum_mset_sum_list[symmetric])
  finally show ?thesis by (simp add: counts_sum)
qed

lemma rows_sorted:
  "sorted_wrt (\<lambda>a b. quantity b \<le> quantity a) (computeCategoriesBreakdown items m)"
proof -
  have "sorted (map (\<lambda>r. - int (quantity r)) (computeCategoriesBreakdown items m))"
    by (simp add: computeCategoriesBreakdown_def Let_def)
  then show ?thesis by (simp add: sorted_map)
qed

section \<open>Properties of the calendar and of parseMonth\<close>

lemma div_step:
  fixes a n :: int
  assumes "0 < n"
  shows "(a + 1) div n = a div n + (if (a + 1) mod n = 0 then 1 else 0)"
proof (cases "a mod n = n - 1")
  case True
  have e: "n * (a div n) + a mod n = a" by simp
  have "n * (a div n + 1) = n * (a div n) + n" by (simp add: algebra_simps)
  with True e have "a + 1 = n * (a div n + 1) + 0" by linarith
  then have "(a + 1) div n = a div n + 1" "(a + 1) mod n = 0"
    using assms by (metis int_div_pos_eq order_refl, metis int_mod_pos_eq order_refl)
  then show ?thesis by simp
next
  case False
  have r: "0 \<le> a mod n" "a mod n < n" using assms by simp_all
  have "a + 1 = n * (a div n) + (a mod n + 1)" using mult_div_mod_eq[of n a] by simp
  moreover have "0 \<le> a mod n + 1" "a mod n + 1 < n" using r False by linarith+
  ultimately have "(a + 1) div n = a div n" "(a + 1) mod n = a mod n + 1"
    by (metis int_div_pos_eq, metis int_mod_pos_eq)
  then show ?thesis using r by simp
qed

lemma mod_shift4: "(y - 1968) mod 4 = y mod (4::int)"
proof -
  have "y - 1968 = y + (- 492) * 4" by simp
  then show ?thesis by (simp only: mod_mult_self1)
qed

lemma mod_shift100: "(y - 1900) mod 100 = y mod (100::int)"
proof -
  have "y - 1900 = y + (- 19) * 100" by simp
  then show ?thesis by (simp only: mod_mult_self1)
qed

lemma mod_shift400: "(y - 1600) mod 400 = y mod (400::int)"
proof -
  have "y - 1600 = y + (- 4) * 400" by simp
  then show ?thesis by (simp only: mod_mult_self1)
qed

lemma mod_4_100: "y mod (100::int) = 0 \<Longrightarrow> y mod 4 = 0"
proof -
  assume "y mod 100 = 0"
  then have "100 dvd y" by (simp add: dvd_eq_mod_eq_0)
  moreover have "(4::int) dvd 100" by simp
  ultimately have "4 dvd y" by (rule dvd_trans[rotated])
  then show ?thesis by simp
qed

lemma DayFromYear_Suc: "DayFromYear (y + 1) - DayFromYear y = DaysInYear y"
proof -
  have a: "(y + 1 - 1969) div 4 = (y - 1969) div 4 + (if y mod 4 = 0 then 1 else 0)"
    using div_step[of 4 "y - 1969"] mod_shift4[of y] by (simp add: algebra_simps)
  have b: "(y + 1 - 1901) div 100 = (y - 1901) div 100 + (if y mod 100 = 0 then 1 else 0)"
    using div_step[of 100 "y - 1901"] mod_shift100[of y] by (simp add: algebra_simps)
  have c: "(y + 1 - 1601) div 400 = (y - 1601) div 400 + (if y mod 400 = 0 then 1 else 0)"
    using div_step[of 400 "y - 1601"] mod_shift400[of y] by (simp add: algebra_simps)
  have m1: "y mod 100 = 0 \<Longrightarrow> y mod 4 = 0" by (rule mod_4_100)
  have m2: "y mod 400 = 0 \<Longrightarrow> y mod 100 = 0"
  proof -
    assume "y mod 400 = 0"
    then have "400 dvd y" by (simp add: dvd_eq_mod_eq_0)
    moreover have "(100::int) dvd 400" by simp
    ultimately have "100 dvd y" by (rule dvd_trans[rotated])
    then show ?thesis by simp
  qed
  show ?thesis
  proof (cases "y mod 4 = 0")
    case False
    with m1 m2 have "y mod 100 \<noteq> 0" "y mod 400 \<noteq> 0" by auto
    with False show ?thesis unfolding DayFromYear_def DaysInYear_def a b c by simp
  next
    case 4: True
    show ?thesis
    proof (cases "y mod 100 = 0")
      case False
      with m2 have "y mod 400 \<noteq> 0" by auto
      with 4 False show ?thesis unfolding DayFromYear_def DaysInYear_def a b c by simp
    next
      case True
      with 4 show ?thesis unfolding DayFromYear_def DaysInYear_def a b c by simp
    qed
  qed
qed

lemma leap_iff: "DaysInYear y = 366 \<longleftrightarrow> (y mod 4 = 0 \<and> y mod 100 \<noteq> 0) \<or> y mod 400 = 0"
proof -
  have "y mod 400 = 0 \<Longrightarrow> y mod 100 = 0 \<and> y mod 4 = 0"
  proof -
    assume "y mod 400 = 0"
    then have "400 dvd y" by (simp add: dvd_eq_mod_eq_0)
    moreover have "(100::int) dvd 400" "(4::int) dvd 400" by simp_all
    ultimately have "100 dvd y" "4 dvd y" by (auto intro: dvd_trans)
    then show ?thesis by simp
  qed
  then show ?thesis unfolding DaysInYear_def by auto
qed

lemma month_length:
  assumes "0 \<le> m" "m < 12"
  shows "first_of_next_month y m - first_of_month y m = days_in_month y m * msPerDay"
proof -
  consider "m = 0" | "m = 1" | "m = 2" | "m = 3" | "m = 4" | "m = 5" | "m = 6" | "m = 7"
    | "m = 8" | "m = 9" | "m = 10" | "m = 11" using assms by atomize_elim presburger
  then show ?thesis
  proof cases
    case 12
    have "DayFromYear (y + 1) = DayFromYear y + DaysInYear y" using DayFromYear_Suc[of y] by simp
    moreover have "DaysInYear y = 365 \<or> DaysInYear y = 366" by (simp add: DaysInYear_def)
    ultimately show ?thesis using 12
      by (auto simp: first_of_next_month_def first_of_month_def DaysBeforeMonth_def days_in_month_def algebra_simps)
  next
    case 2
    then show ?thesis
      using leap_iff[of y]
      by (auto simp: first_of_next_month_def first_of_month_def DaysBeforeMonth_def days_in_month_def algebra_simps)
  qed (simp_all add: first_of_next_month_def first_of_month_def DaysBeforeMonth_def days_in_month_def algebra_simps)
qed

lemma mod_step:
  fixes a n :: int
  assumes "0 < n"
  shows "(a + 1) mod n = (if a mod n = n - 1 then 0 else a mod n + 1)"
proof (cases "a mod n = n - 1")
  case True
  have e: "n * (a div n) + a mod n = a" by simp
  have "n * (a div n + 1) = n * (a div n) + n" by (simp add: algebra_simps)
  with True e have "a + 1 = n * (a div n + 1) + 0" by linarith
  then have "(a + 1) mod n = 0"
    using assms by (metis int_mod_pos_eq order_refl)
  with True show ?thesis by simp
next
  case False
  have r: "0 \<le> a mod n" "a mod n < n" using assms by simp_all
  have "a + 1 = n * (a div n) + (a mod n + 1)" using mult_div_mod_eq[of n a] by simp
  moreover have "0 \<le> a mod n + 1" "a mod n + 1 < n" using r False by linarith+
  ultimately have "(a + 1) mod n = a mod n + 1"
    by (metis int_mod_pos_eq)
  with False show ?thesis by simp
qed

lemma next_month_norm:
  "first_of_next_month (yr + (M - 1) div 12) ((M - 1) mod 12) = first_of_month (yr + M div 12) (M mod 12)"
proof -
  have M: "M = (M - 1) + 1" by simp
  have m: "M mod 12 = (if (M - 1) mod 12 = 11 then 0 else (M - 1) mod 12 + 1)"
    using mod_step[of 12 "M - 1"] by simp
  have d: "M div 12 = (M - 1) div 12 + (if M mod 12 = 0 then 1 else 0)"
    using div_step[of 12 "M - 1"] by simp
  show ?thesis
  proof (cases "(M - 1) mod 12 = 11")
    case True
    with m d have "M mod 12 = 0" "M div 12 = (M - 1) div 12 + 1" by simp_all
    with True show ?thesis by (simp add: first_of_next_month_def add.assoc)
  next
    case False
    with m have m': "M mod 12 = (M - 1) mod 12 + 1" by simp
    have "0 \<le> (M - 1) mod 12" by simp
    with m' have "M mod 12 \<noteq> 0" by linarith
    with d have "M div 12 = (M - 1) div 12" by simp
    with False m' show ?thesis by (simp add: first_of_next_month_def)
  qed
qed

lemma MakeDay_first: "MakeDay yr mm 1 * msPerDay = first_of_month (yr + mm div 12) (mm mod 12)"
  by (simp add: MakeDay_def first_of_month_def Let_def)

lemma TimeClip_ok:
  assumes "0 \<le> yr" "yr \<le> 9999" "- 1 \<le> mm" "mm \<le> 99"
  shows "TimeClip (MakeDay yr mm 1 * msPerDay) = Fin (of_int (MakeDay yr mm 1 * msPerDay))"
proof -
  define ym where "ym = yr + mm div 12"
  have "(- 1) div 12 \<le> mm div 12" "mm div 12 \<le> 99 div 12"
    using assms by (intro zdiv_mono1; simp)+
  then have ym: "- 1 \<le> ym" "ym \<le> 10008" using assms unfolding ym_def by simp_all
  have q4: "(- 1 - 1969) div 4 \<le> (ym - 1969) div 4" "(ym - 1969) div 4 \<le> (10008 - 1969) div 4"
    using ym by (intro zdiv_mono1; simp)+
  have q100: "(- 1 - 1901) div 100 \<le> (ym - 1901) div 100" "(ym - 1901) div 100 \<le> (10008 - 1901) div 100"
    using ym by (intro zdiv_mono1; simp)+
  have q400: "(- 1 - 1601) div 400 \<le> (ym - 1601) div 400" "(ym - 1601) div 400 \<le> (10008 - 1601) div 400"
    using ym by (intro zdiv_mono1; simp)+
  have d: "- 1000000 \<le> DayFromYear ym" "DayFromYear ym \<le> 4000000"
    using ym q4 q100 q400 unfolding DayFromYear_def by simp_all
  have b: "0 \<le> DaysBeforeMonth (DaysInYear ym = 366) (mm mod 12)"
          "DaysBeforeMonth (DaysInYear ym = 366) (mm mod 12) \<le> 335"
    by (simp_all add: DaysBeforeMonth_def)
  have "MakeDay yr mm 1 = DayFromYear ym + DaysBeforeMonth (DaysInYear ym = 366) (mm mod 12)"
    by (simp add: MakeDay_def Let_def ym_def)
  with d b have "\<bar>MakeDay yr mm 1\<bar> \<le> 5000000" by linarith
  then have "\<bar>MakeDay yr mm 1 * msPerDay\<bar> \<le> 5000000 * 86400000"
    by (simp add: msPerDay_def abs_mult)
  then show ?thesis by (simp add: TimeClip_def)
qed

lemma ToInteger_of_int [simp]: "ToInteger (of_int k) = k"
  by (simp add: ToInteger_def)

lemma matches_parts:
  assumes "matches_YYYY_MM s"
  shows "split_on 45 s = [take 4 s, drop 5 s]"
    and "list_all isDigit (take 4 s)" and "list_all isDigit (drop 5 s)"
    and "length (take 4 s) = 4" and "length (drop 5 s) = 2"
proof -
  from assms have "length s = 7" by (simp add: matches_YYYY_MM_def)
  then obtain a b c d h m n where s: "s = [a, b, c, d, h, m, n]"
    by (auto simp: length_Suc_conv eval_nat_numeral)
  with assms have dg: "isDigit a" "isDigit b" "isDigit c" "isDigit d" "h = 45" "isDigit m" "isDigit n"
    by (simp_all add: matches_YYYY_MM_def)
  then have "a \<noteq> 45" "b \<noteq> 45" "c \<noteq> 45" "d \<noteq> 45" "m \<noteq> 45" "n \<noteq> 45"
    by (auto simp: isDigit_def)
  then show "split_on 45 s = [take 4 s, drop 5 s]" using s dg by simp
  show "list_all isDigit (take 4 s)" "list_all isDigit (drop 5 s)" using s dg by simp_all
  show "length (take 4 s) = 4" "length (drop 5 s) = 2" using s by simp_all
qed

lemma Date_UTC_int:
  "Date_UTC (Fin (of_int y)) (Fin (of_int mm)) (Fin 1) =
     TimeClip (MakeDay (if 0 \<le> y \<and> y \<le> 99 then 1900 + y else y) mm 1 * msPerDay)"
  using ToInteger_of_int[of 1] by (simp add: Let_def)

lemma parseMonth_matches:
  assumes m: "matches_YYYY_MM s"
  shows "0 \<le> year_digits s \<and> year_digits s \<le> 9999 \<and> 0 \<le> month_digits s \<and> month_digits s \<le> 99 \<and>
     parseMonth (Some s) =
       Inr (Fin (of_int (MakeDay (if year_digits s \<le> 99 then 1900 + year_digits s else year_digits s) (month_digits s - 1) 1 * msPerDay)),
            Fin (of_int (MakeDay (if year_digits s \<le> 99 then 1900 + year_digits s else year_digits s) (month_digits s) 1 * msPerDay)))"
proof -
  note p = matches_parts[OF m]
  define Y where "Y = year_digits s"
  define M where "M = month_digits s"
  have Yb: "0 \<le> Y" "Y \<le> 9999"
    using decimal_bound[OF p(2), of 0] p(4) by (simp_all add: Y_def year_digits_def decimal_value_def)
  have Mb: "0 \<le> M" "M \<le> 99"
    using decimal_bound[OF p(3), of 0] p(5) by (simp_all add: M_def month_digits_def decimal_value_def)
  have ne: "take 4 s \<noteq> []" "drop 5 s \<noteq> []" using p(4,5) by auto
  have "decimal_value (take 4 s) < 2 ^ 53" using Yb by (simp add: Y_def year_digits_def)
  from StringToNumber_digits[OF ne(1) p(2) this]
  have nY: "StringToNumber (take 4 s) = Fin (of_int Y)" by (simp add: Y_def year_digits_def)
  have "decimal_value (drop 5 s) < 2 ^ 53" using Mb by (simp add: M_def month_digits_def)
  from StringToNumber_digits[OF ne(2) p(3) this]
  have nM: "StringToNumber (drop 5 s) = Fin (of_int M)" by (simp add: M_def month_digits_def)
  have sub: "js_sub (Fin (of_int M)) (Fin 1) = Fin (of_int (M - 1))"
  proof -
    have "\<bar>M - 1\<bar> < 2 ^ 53" using Mb by simp
    from fl_int[OF this] show ?thesis by simp
  qed
  define yr where "yr = (if Y \<le> 99 then 1900 + Y else Y)"
  have yr': "(if 0 \<le> Y \<and> Y \<le> 99 then 1900 + Y else Y) = yr" using Yb by (simp add: yr_def)
  have yrb: "0 \<le> yr" "yr \<le> 9999" using Yb by (auto simp: yr_def)
  have t1: "TimeClip (MakeDay yr (M - 1) 1 * msPerDay) = Fin (of_int (MakeDay yr (M - 1) 1 * msPerDay))"
    using Mb by (intro TimeClip_ok yrb) simp_all
  have t2: "TimeClip (MakeDay yr M 1 * msPerDay) = Fin (of_int (MakeDay yr M 1 * msPerDay))"
    using Mb by (intro TimeClip_ok yrb) simp_all
  have rx: "s \<noteq> []" "month_regex_test s" using m by (auto simp: matches_iff matches_YYYY_MM_def)
  have "parseMonth (Some s) =
        Inr (Date_UTC (StringToNumber (take 4 s)) (js_sub (StringToNumber (drop 5 s)) (Fin 1)) (Fin 1),
             Date_UTC (StringToNumber (take 4 s)) (StringToNumber (drop 5 s)) (Fin 1))"
    using rx by (simp add: parseMonth_def Let_def p(1) element_def)
  also have "\<dots> = Inr (Fin (of_int (MakeDay yr (M - 1) 1 * msPerDay)), Fin (of_int (MakeDay yr M 1 * msPerDay)))"
    by (simp only: nY nM sub Date_UTC_int yr' t1 t2)
  finally show ?thesis using Yb Mb unfolding yr_def Y_def M_def by blast
qed

section \<open>Properties of the statistics endpoints\<close>

lemma map_of_group_step:
  "map_of (group_step acc x) =
     (map_of acc)(listId x \<mapsto> (case map_of acc (listId x) of None \<Rightarrow> [] | Some xs \<Rightarrow> xs) @ [x])"
  by (simp add: group_step_def map_of_obj_set)

lemma grouped_lookup:
  "map_of (foldl group_step acc items) k =
     (case map_of acc k of
        None \<Rightarrow> if k \<in> listId ` set items then Some (filter (\<lambda>i. listId i = k) items) else None
      | Some xs \<Rightarrow> Some (xs @ filter (\<lambda>i. listId i = k) items))"
proof (induction items arbitrary: acc)
  case Nil
  then show ?case by (simp split: option.splits)
next
  case (Cons x xs)
  have "foldl group_step acc (x # xs) = foldl group_step (group_step acc x) xs" by simp
  then show ?case
    by (simp only: Cons.IH map_of_group_step) (auto split: option.splits)
qed

lemma grouped_or_empty_eq:
  "grouped_or_empty (groupItemsByList items) k = filter (\<lambda>i. listId i = k) items"
proof -
  have "k \<notin> listId ` set items \<Longrightarrow> filter (\<lambda>i. listId i = k) items = []"
    by (auto simp: filter_empty_conv)
  then show ?thesis
    by (auto simp: grouped_or_empty_def groupItemsByList_def grouped_lookup)
qed

lemma items_for_list:
  assumes "k \<in> set ids"
  shows "filter (\<lambda>i. listId i = k) (getItemsForLists d ids) =
         map (\<lambda>i. \<lparr>categoryId = i_categoryId i, listId = i_listId i\<rparr>) (item_rows_of d k)"
proof -
  have ne: "ids \<noteq> []" using assms by auto
  have "filter (\<lambda>i. i_listId i = k \<and> i_listId i \<in> set ids) (db_items d) = filter (\<lambda>i. i_listId i = k) (db_items d)"
    using assms by (intro filter_cong) auto
  then show ?thesis using ne
    by (simp add: getItemsForLists_def item_rows_of_def filter_map comp_def conj_commute)
qed

lemma errorHandler_not_stats:
  "errorHandler err \<noteq> \<lparr>status = st, body = ListStatsBody row\<rparr>"
  "errorHandler err \<noteq> \<lparr>status = st, body = MonthlyBody mo rows\<rparr>"
  by (cases err; simp)+

lemma list_of_stats [simp]:
  "list_of (list_stats_of d g cm l) = l" "l_id (list_stats_of d g cm l) = l_id l"
  by (simp_all add: list_stats_of_def list_of_def)

lemma list_stats_total:
  assumes "l_id l \<in> set ids"
  shows "totalQuantity (list_stats_of d (groupItemsByList (getItemsForLists d ids)) cm l) = length (item_rows_of d (l_id l))"
    and "item_rows_of d (l_id l) = [] \<Longrightarrow> categories (list_stats_of d (groupItemsByList (getItemsForLists d ids)) cm l) = []"
proof -
  have g: "grouped_or_empty (groupItemsByList (getItemsForLists d ids)) (l_id l) =
           map (\<lambda>i. \<lparr>categoryId = i_categoryId i, listId = i_listId i\<rparr>) (item_rows_of d (l_id l))"
    by (simp add: grouped_or_empty_eq items_for_list[OF assms])
  show "totalQuantity (list_stats_of d (groupItemsByList (getItemsForLists d ids)) cm l) = length (item_rows_of d (l_id l))"
    by (simp add: list_stats_of_def g)
  show "item_rows_of d (l_id l) = [] \<Longrightarrow> categories (list_stats_of d (groupItemsByList (getItemsForLists d ids)) cm l) = []"
    by (simp add: list_stats_of_def g computeCategoriesBreakdown_def Object_entries_def)
qed

lemma getMonthlyStats_ok:
  assumes "parseMonth month = Inr (Fin s, Fin e)"
  shows "\<exists>rows. getMonthlyStats d month = \<lparr>status = 200, body = MonthlyBody month rows\<rparr> \<and>
           map list_of rows = sort_key l_createdAt (filter (\<lambda>l. s \<le> of_int (l_createdAt l) \<and> of_int (l_createdAt l) < e) (db_lists d)) \<and>
           (\<forall>row\<in>set rows. totalQuantity row = length (item_rows_of d (l_id row)) \<and>
               (item_rows_of d (l_id row) = [] \<longrightarrow> categories row = []))"
proof -
  define ls where "ls = sort_key l_createdAt (filter (\<lambda>l. s \<le> of_int (l_createdAt l) \<and> of_int (l_createdAt l) < e) (db_lists d))"
  define items where "items = getItemsForLists d (map l_id ls)"
  define rows where "rows = map (list_stats_of d (groupItemsByList items) (getCategoryMap d items)) ls"
  have r: "getMonthlyStats d month = \<lparr>status = 200, body = MonthlyBody month rows\<rparr>"
    using assms by (simp add: getMonthlyStats_def Let_def ls_def[symmetric] items_def[symmetric] rows_def)
  have "map list_of rows = ls"
    unfolding rows_def by (simp add: comp_def)
  moreover have "\<forall>row\<in>set rows. totalQuantity row = length (item_rows_of d (l_id row)) \<and>
               (item_rows_of d (l_id row) = [] \<longrightarrow> categories row = [])"
  proof
    fix row assume "row \<in> set rows"
    then obtain l where l: "l \<in> set ls" and row: "row = list_stats_of d (groupItemsByList items) (getCategoryMap d items) l"
      unfolding rows_def by auto
    from l have "l_id l \<in> set (map l_id ls)" by simp
    from list_stats_total[OF this, of d "getCategoryMap d items"]
    show "totalQuantity row = length (item_rows_of d (l_id row)) \<and>
               (item_rows_of d (l_id row) = [] \<longrightarrow> categories row = [])"
      unfolding row items_def by simp
  qed
  ultimately show ?thesis using r unfolding ls_def by blast
qed

lemma getMonthlyStats_200:
  assumes "getMonthlyStats d month = \<lparr>status = 200, body = MonthlyBody month' rows\<rparr>"
  shows "\<forall>row\<in>set rows. totalQuantity row = length (item_rows_of d (l_id row))"
proof (cases "parseMonth month")
  case (Inl err)
  with assms show ?thesis by (simp add: getMonthlyStats_def errorHandler_not_stats)
next
  case (Inr p)
  obtain a b where p: "p = (a, b)" by (cases p)
  show ?thesis
  proof (cases "\<exists>s e. a = Fin s \<and> b = Fin e")
    case True
    then obtain s e where "parseMonth month = Inr (Fin s, Fin e)" using Inr p by auto
    from getMonthlyStats_ok[OF this, of d] assms show ?thesis by auto
  next
    case False
    then have "getListsInRange d a b = Inl StorageError"
      by (cases a; cases b) auto
    with assms Inr p show ?thesis by (simp add: getMonthlyStats_def)
  qed
qed

lemma getStatsByList_200:
  assumes "getStatsByList en d idp = \<lparr>status = 200, body = ListStatsBody row\<rparr>"
  shows "totalQuantity row = length (item_rows_of d (l_id row))"
proof -
  from assms obtain i l where "find (\<lambda>l. l_id l = i) (db_lists d) = Some l"
     and row: "row = \<lparr>l_id = l_id l, l_name = l_name l, l_createdAt = l_createdAt l,
                            totalQuantity = length (map (\<lambda>it. \<lparr>categoryId = i_categoryId it\<rparr>) (filter (\<lambda>it. i_listId it = i) (db_items d))),
                            categories = computeCategoriesBreakdown (map (\<lambda>it. \<lparr>categoryId = i_categoryId it\<rparr>) (filter (\<lambda>it. i_listId it = i) (db_items d)))
                               (getCategoryMap d (map (\<lambda>it. \<lparr>categoryId = i_categoryId it\<rparr>) (filter (\<lambda>it. i_listId it = i) (db_items d))))\<rparr>"
    by (auto simp: getStatsByList_def Let_def errorHandler_not_stats split: if_splits sum.splits option.splits)
  then have "l_id l = i" by (auto simp: find_Some_iff)
  with row show ?thesis by (simp add: item_rows_of_def)
qed

section \<open>Properties of the validators\<close>

lemma isWhiteSpace_letter [simp]: "\<not> isWhiteSpace 97"
  by (simp add: isWhiteSpace_def)

lemma lit_a [simp]: "lit ''a'' = [97]"
  by (simp add: lit_def)

text \<open>
  C10. \<open>validateItemAddition\<close> and \<open>validateItemUpdate\<close> are extensionally equal: for every
  payload they return the same error mapping (or throw the same error).
\<close>

theorem validateItemAddition_eq_validateItemUpdate:
  "validateItemAddition item = validateItemUpdate item"
  by (simp add: validateItemAddition_def validateItemUpdate_def)

text \<open>
  C8 (the code at the failing input). A payload with the name "a", the quantity \<open>-1\<close> and the
  unit id \<open>1\<close> passes \<open>validateItemAddition\<close> with no error at all, although \<open>-1\<close> is not a
  number greater than zero.
\<close>

theorem validateItemAddition_negative_quantity:
  "validateItemAddition
     \<lparr>p_name = JString (lit ''a''), p_quantity = JNumber (Fin (- 1)), p_brand = JUndefined,
      p_unitId = JNumber (Fin 1), p_comments = JUndefined\<rparr> = Inr []"
  by (simp add: validateItemAddition_def trim_def isNaN_def)

section \<open>Evaluation of the example\<close>

lemma toFixed2_of_int: "0 \<le> n \<Longrightarrow> toFixed2 (of_int n) = of_int n"
proof -
  assume n: "0 \<le> n"
  have "\<lfloor>(of_int n :: rat) * 100 + 1 / 2\<rfloor> = n * 100"
    by (rule floor_unique) simp_all
  with n show ?thesis by (simp add: toFixed2_def)
qed

lemma percent_3_4: "Number_toFixed2 (js_mul (js_div (Fin 3) (Fin 4)) (Fin 100)) = Fin 75"
proof -
  have "fl (3 / 4) = Fin (3 / 4)" using fl_dyadic[of 3 2] by simp
  moreover have "fl 75 = Fin 75" using fl_int[of 75] by simp
  ultimately show ?thesis using toFixed2_of_int[of 75] by simp
qed

lemma percent_1_4: "Number_toFixed2 (js_mul (js_div (Fin 1) (Fin 4)) (Fin 100)) = Fin 25"
proof -
  have "fl (1 / 4) = Fin (1 / 4)" using fl_dyadic[of 1 2] by simp
  moreover have "fl 25 = Fin 25" using fl_int[of 25] by simp
  ultimately show ?thesis using toFixed2_of_int[of 25] by simp
qed

lemma example_rows:
  "computeCategoriesBreakdown example_items example_map =
     [\<lparr>categoryId = 7, categoryName = lit ''X'', quantity = 3, percent = Fin 75\<rparr>,
      \<lparr>categoryId = 3, categoryName = unknown, quantity = 1, percent = Fin 25\<rparr>]"
  using percent_3_4 percent_1_4
  by (simp add: computeCategoriesBreakdown_def example_items_def example_map_def count_step_def
      obj_set_def Object_entries_def isArrayIndex_def breakdown_entry_def lit_def)

section \<open>The sum of the percentages\<close>

lemma abs_sum_list_bound:
  fixes f :: "'a \<Rightarrow> rat"
  shows "(\<And>x. x \<in> set xs \<Longrightarrow> \<bar>f x\<bar> \<le> b) \<Longrightarrow> \<bar>sum_list (map f xs)\<bar> \<le> of_nat (length xs) * b"
proof (induction xs)
  case Nil
  then show ?case by simp
next
  case (Cons x xs)
  have "\<bar>f x\<bar> \<le> b" using Cons.prems by simp
  moreover have "\<bar>sum_list (map f xs)\<bar> \<le> of_nat (length xs) * b" using Cons by simp
  ultimately show ?case by (simp add: algebra_simps)
qed

lemma row_percent:
  assumes "r \<in> set (computeCategoriesBreakdown items m)"
  shows "\<exists>p. percent r = Fin p \<and> \<bar>p - 100 * of_nat (quantity r) / of_nat (length items)\<bar> \<le> 1 / 100"
proof -
  from assms obtain k c where kc: "(k, c) \<in> set (foldl count_step [] items)"
    and r: "r = breakdown_entry (length items) m (k, c)"
    by (auto simp: rows_set)
  from counts_entry[OF kc] have c: "1 \<le> c" "c \<le> length items" by auto
  then have t: "0 < length items" by linarith
  from percent_bound[OF c] obtain p where
    "Number_toFixed2 (js_mul (js_div (Fin (of_nat c)) (Fin (of_nat (length items)))) (Fin 100)) = Fin p"
    "\<bar>p - 100 * of_nat c / of_nat (length items)\<bar> \<le> 1 / 100" by blast
  with t r show ?thesis by (simp add: breakdown_entry_def)
qed

text \<open>
  C6. For every non-empty item array, the percent values of the rows returned by
  \<open>computeCategoriesBreakdown\<close> are finite numbers whose sum differs from 100 by at most 0.02
  times the number of distinct categories of the input.
\<close>

theorem percent_sum_near_100:
  assumes "items \<noteq> []"
  shows "\<exists>ps. map percent (computeCategoriesBreakdown items categoryMap) = map Fin ps \<and>
           \<bar>sum_list ps - 100\<bar> \<le> 2 / 100 * of_nat (card (categoryId ` set items))"
proof -
  define rows where "rows = computeCategoriesBreakdown items categoryMap"
  define t :: rat where "t = of_nat (length items)"
  have t: "0 < t" using assms by (simp add: t_def)
  define pv where "pv r = (case percent r of Fin p \<Rightarrow> p | _ \<Rightarrow> 0)" for r :: breakdown_row
  have each: "percent r = Fin (pv r) \<and> \<bar>pv r - 100 * of_nat (quantity r) / t\<bar> \<le> 1 / 100"
    if "r \<in> set rows" for r
    using row_percent[of r items categoryMap] that unfolding rows_def t_def pv_def by auto
  have m: "map percent rows = map Fin (map pv rows)" using each by simp
  have "sum_list (map (\<lambda>r. 100 * of_nat (quantity r) / t) rows) =
        100 * of_nat (sum_list (map quantity rows)) / t"
    by (induction rows) (simp_all add: add_divide_distrib distrib_left)
  also have "\<dots> = 100"
    using t unfolding rows_def by (simp add: rows_quantity_sum t_def)
  finally have s100: "sum_list (map (\<lambda>r. 100 * of_nat (quantity r) / t) rows) = 100" .
  have "sum_list (map pv rows) - 100 =
        sum_list (map pv rows) - sum_list (map (\<lambda>r. 100 * of_nat (quantity r) / t) rows)"
    by (simp only: s100)
  also have "\<dots> = sum_list (map (\<lambda>r. pv r - 100 * of_nat (quantity r) / t) rows)"
    by (simp add: sum_list_subtractf)
  finally have "\<bar>sum_list (map pv rows) - 100\<bar> =
        \<bar>sum_list (map (\<lambda>r. pv r - 100 * of_nat (quantity r) / t) rows)\<bar>" by simp
  also have "\<dots> \<le> of_nat (length rows) * (1 / 100)"
    by (rule abs_sum_list_bound) (use each in blast)
  also have "\<dots> \<le> 2 / 100 * of_nat (length rows)" by simp
  finally have "\<bar>sum_list (map pv rows) - 100\<bar> \<le> 2 / 100 * of_nat (card (categoryId ` set items))"
    unfolding rows_def by (simp only: rows_length)
  with m show ?thesis unfolding rows_def by blast
qed

text \<open>The theorem at the example items: the array is not empty, and the sum is within the tolerance.\<close>

theorem percent_sum_near_100_witness:
  "example_items \<noteq> [] \<and>
   (\<exists>ps. map percent (computeCategoriesBreakdown example_items example_map) = map Fin ps \<and>
         \<bar>sum_list ps - 100\<bar> \<le> 2 / 100 * of_nat (card (categoryId ` set example_items)))"
proof -
  have ne: "example_items \<noteq> []" by (simp add: example_items_def)
  from percent_sum_near_100[OF ne, of example_map] ne show ?thesis by blast
qed

section \<open>The rows of the breakdown and the totals of the endpoints\<close>

lemma row_fields:
  assumes "r \<in> set (computeCategoriesBreakdown items m)"
  shows "quantity r = count_list (map categoryId items) (categoryId r) \<and>
         percent r =
           Number_toFixed2
             (js_mul (js_div (Fin (of_nat (quantity r))) (Fin (of_nat (length items)))) (Fin 100)) \<and>
         categoryName r =
           (case m (categoryId r) of
              None \<Rightarrow> unknown
            | Some name \<Rightarrow> if name = [] then unknown else name)"
proof -
  from assms obtain k c where kc: "(k, c) \<in> set (foldl count_step [] items)"
    and r: "r = breakdown_entry (length items) m (k, c)"
    by (auto simp: rows_set)
  from counts_entry[OF kc] have c: "c = count_list (map categoryId items) k" "1 \<le> c" "c \<le> length items"
    by auto
  then have "0 < length items" by linarith
  with r c(1) show ?thesis by (simp add: breakdown_entry_def)
qed

text \<open>
  C1 (amended). \<open>computeCategoriesBreakdown\<close> returns exactly one row per distinct categoryId
  of the input; the quantity of a row is the number of occurrences of its categoryId; its
  percent is \<open>Number((count / totalItems * 100).toFixed(2))\<close> in binary64 arithmetic; its
  categoryName is the lookup's value when the id is present with a non-empty name, and
  "Unknown" otherwise; the rows are sorted by quantity descending. Whenever the monthly or the
  single-list endpoint answers 200 with statistics, the totalQuantity of a list is the number
  of its item rows.
\<close>

theorem breakdown_rows_and_totals:
  "distinct (map categoryId (computeCategoriesBreakdown items categoryMap)) \<and>
   categoryId ` set (computeCategoriesBreakdown items categoryMap) = categoryId ` set items \<and>
   (\<forall>r\<in>set (computeCategoriesBreakdown items categoryMap).
      quantity r = count_list (map categoryId items) (categoryId r) \<and>
      percent r =
        Number_toFixed2
          (js_mul (js_div (Fin (of_nat (quantity r))) (Fin (of_nat (length items)))) (Fin 100)) \<and>
      categoryName r =
        (case categoryMap (categoryId r) of
           None \<Rightarrow> unknown
         | Some name \<Rightarrow> if name = [] then unknown else name)) \<and>
   sorted_wrt (\<lambda>a b. quantity b \<le> quantity a) (computeCategoriesBreakdown items categoryMap) \<and>
   (\<forall>rows. getMonthlyStats d month = \<lparr>status = 200, body = MonthlyBody month rows\<rparr> \<longrightarrow>
      (\<forall>row\<in>set rows. totalQuantity row = length (item_rows_of d (l_id row)))) \<and>
   (\<forall>row. getStatsByList e d id_param = \<lparr>status = 200, body = ListStatsBody row\<rparr> \<longrightarrow>
      totalQuantity row = length (item_rows_of d (l_id row)))"
  using rows_distinct[of items categoryMap] rows_keys[of items categoryMap]
    row_fields[of _ items categoryMap] rows_sorted[of items categoryMap]
    getMonthlyStats_200[of d month month] getStatsByList_200[of e d id_param]
  by blast

lemma parseMonth_2024_02:
  "parseMonth (Some (lit ''2024-02'')) = Inr (Fin 1706745600000, Fin 1709251200000)"
proof -
  have m: "matches_YYYY_MM (lit ''2024-02'')"
    by (simp add: matches_YYYY_MM_def lit_def isDigit_def)
  have "year_digits (lit ''2024-02'') = 2024" "month_digits (lit ''2024-02'') = 2"
    by (simp_all add: year_digits_def month_digits_def decimal_value_def lit_def)
  with parseMonth_matches[OF m] show ?thesis
    by (simp add: MakeDay_def DayFromYear_def DaysInYear_def DaysBeforeMonth_def msPerDay_def)
qed

lemma example_lists_in_range:
  "sort_key l_createdAt
     (filter (\<lambda>l. 1706745600000 \<le> (of_int (l_createdAt l) :: rat) \<and> of_int (l_createdAt l) < (1709251200000::rat))
        (db_lists example_db)) = [example_list1, example_list2]"
  by (simp add: example_db_def example_list1_def example_list2_def)

lemma example_item_rows:
  "length (item_rows_of example_db 1) = 4" "item_rows_of example_db 2 = []"
  "sum_list (map i_quantity (item_rows_of example_db 1)) = 20"
  by (simp_all add: item_rows_of_def example_db_def example_item_def)

lemma StringToNumber_1: "StringToNumber (lit ''1'') = Fin 1"
proof -
  have "StringToNumber [49] = Fin (of_nat (decimal_value [49]))"
    by (rule StringToNumber_digits) (simp_all add: isDigit_def decimal_value_def)
  then show ?thesis by (simp add: lit_def decimal_value_def)
qed

lemma example_single_list:
  "\<exists>row. getStatsByList development example_db (lit ''1'') = \<lparr>status = 200, body = ListStatsBody row\<rparr> \<and> l_id row = 1"
  by (simp add: getStatsByList_def StringToNumber_1 globalThis_prisma_def development_def Let_def
      example_db_def example_list1_def example_list2_def)

text \<open>
  The theorem at the example: the rows of the example items, the month 2024-02 and the list 1
  of the example database, whose four item rows have quantity fields that add up to 20.
\<close>

theorem breakdown_rows_and_totals_witness:
  "\<lparr>categoryId = 7, categoryName = lit ''X'', quantity = 3, percent = Fin 75\<rparr>
     \<in> set (computeCategoriesBreakdown example_items example_map) \<and>
   count_list (map categoryId example_items) 7 = 3 \<and>
   (\<exists>rows. getMonthlyStats example_db (Some (lit ''2024-02'')) =
        \<lparr>status = 200, body = MonthlyBody (Some (lit ''2024-02'')) rows\<rparr> \<and>
      (\<exists>row\<in>set rows. l_id row = 1 \<and> totalQuantity row = 4)) \<and>
   (\<exists>row. getStatsByList development example_db (lit ''1'') =
        \<lparr>status = 200, body = ListStatsBody row\<rparr> \<and> totalQuantity row = 4) \<and>
   sum_list (map i_quantity (item_rows_of example_db 1)) = 20"
proof -
  note claim = breakdown_rows_and_totals[of example_items example_map example_db
      "Some (lit ''2024-02'')" development "lit ''1''"]
  have mem: "\<lparr>categoryId = 7, categoryName = lit ''X'', quantity = 3, percent = Fin 75\<rparr>
     \<in> set (computeCategoriesBreakdown example_items example_map)"
    by (simp add: example_rows)
  from claim mem have "quantity \<lparr>categoryId = 7, categoryName = lit ''X'', quantity = 3, percent = Fin 75\<rparr> =
      count_list (map categoryId example_items) (categoryId \<lparr>categoryId = 7, categoryName = lit ''X'', quantity = 3, percent = Fin 75\<rparr>)"
    by blast
  then have cnt: "count_list (map categoryId example_items) 7 = 3" by simp
  from getMonthlyStats_ok[OF parseMonth_2024_02, of example_db, unfolded example_lists_in_range]
  obtain rows where
    resp: "getMonthlyStats example_db (Some (lit ''2024-02'')) =
        \<lparr>status = 200, body = MonthlyBody (Some (lit ''2024-02'')) rows\<rparr>"
    and ls: "map list_of rows = [example_list1, example_list2]"
    by (elim exE conjE) (rule that)
  from ls obtain row where row: "row \<in> set rows" "list_of row = example_list1"
    by (cases rows) auto
  then have id1: "l_id row = 1" by (auto simp: list_of_def example_list1_def)
  from claim resp row(1) have "totalQuantity row = length (item_rows_of example_db (l_id row))" by blast
  with id1 have "totalQuantity row = 4" by (simp add: example_item_rows)
  with resp row(1) id1 have monthly: "\<exists>rows. getMonthlyStats example_db (Some (lit ''2024-02'')) =
        \<lparr>status = 200, body = MonthlyBody (Some (lit ''2024-02'')) rows\<rparr> \<and>
      (\<exists>row\<in>set rows. l_id row = 1 \<and> totalQuantity row = 4)" by blast
  from example_single_list obtain srow where
    s: "getStatsByList development example_db (lit ''1'') = \<lparr>status = 200, body = ListStatsBody srow\<rparr>"
    and sid: "l_id srow = 1" by blast
  from claim s have "totalQuantity srow = length (item_rows_of example_db (l_id srow))" by blast
  with sid have "totalQuantity srow = 4" by (simp add: example_item_rows)
  with s have single: "\<exists>row. getStatsByList development example_db (lit ''1'') =
        \<lparr>status = 200, body = ListStatsBody row\<rparr> \<and> totalQuantity row = 4" by blast
  from mem cnt monthly single example_item_rows(3) show ?thesis by blast
qed

text \<open>
  The claim as stated fails for a lookup that holds the empty name: the row is labelled
  "Unknown", not with the lookup's value.
\<close>

theorem categoryName_empty_lookup_counterexample:
  "map categoryName (computeCategoriesBreakdown [\<lparr>categoryId = 1\<rparr>] [1 \<mapsto> []]) = [unknown] \<and>
   [1 \<mapsto> []] (1::int) = Some ([]::jsstring) \<and> unknown \<noteq> []"
  by (simp add: computeCategoriesBreakdown_def count_step_def obj_set_def Object_entries_def
      isArrayIndex_def breakdown_entry_def unknown_def lit_def)

section \<open>The empty breakdown and the lists without items\<close>

text \<open>
  C7. \<open>computeCategoriesBreakdown\<close> of an empty item array is the empty array; for every
  input each row's percent is a finite number (the division is evaluated only under the guard
  \<open>totalQuantity > 0\<close>, so it never yields NaN or an infinity); and for a month that matches
  the pattern the monthly endpoint answers 200 with one entry for every list created in the
  month's interval, in which a list without item rows has totalQuantity 0 and no categories.
\<close>

theorem empty_breakdown_and_empty_lists:
  "computeCategoriesBreakdown [] categoryMap = [] \<and>
   (\<forall>r\<in>set (computeCategoriesBreakdown items categoryMap). \<exists>p. percent r = Fin p) \<and>
   (matches_YYYY_MM s \<longrightarrow>
      (\<exists>start end rows.
         parseMonth (Some s) = Inr (Fin start, Fin end) \<and>
         getMonthlyStats d (Some s) = \<lparr>status = 200, body = MonthlyBody (Some s) rows\<rparr> \<and>
         map list_of rows =
           sort_key l_createdAt
             (filter (\<lambda>l. start \<le> of_int (l_createdAt l) \<and> of_int (l_createdAt l) < end) (db_lists d)) \<and>
         (\<forall>row\<in>set rows.
            item_rows_of d (l_id row) = [] \<longrightarrow> totalQuantity row = 0 \<and> categories row = [])))"
proof (intro conjI impI ballI)
  show "computeCategoriesBreakdown [] categoryMap = []"
    by (simp add: computeCategoriesBreakdown_def Object_entries_def)
next
  fix r assume "r \<in> set (computeCategoriesBreakdown items categoryMap)"
  from row_percent[OF this] show "\<exists>p. percent r = Fin p" by blast
next
  assume "matches_YYYY_MM s"
  from parseMonth_matches[OF this] obtain a b where p: "parseMonth (Some s) = Inr (Fin a, Fin b)"
    by blast
  from getMonthlyStats_ok[OF p, of d] obtain rows where
    "getMonthlyStats d (Some s) = \<lparr>status = 200, body = MonthlyBody (Some s) rows\<rparr>"
    "map list_of rows =
       sort_key l_createdAt
         (filter (\<lambda>l. a \<le> of_int (l_createdAt l) \<and> of_int (l_createdAt l) < b) (db_lists d))"
    "\<forall>row\<in>set rows. totalQuantity row = length (item_rows_of d (l_id row)) \<and>
               (item_rows_of d (l_id row) = [] \<longrightarrow> categories row = [])"
    by (elim exE conjE) (rule that)
  with p show "\<exists>start end rows.
         parseMonth (Some s) = Inr (Fin start, Fin end) \<and>
         getMonthlyStats d (Some s) = \<lparr>status = 200, body = MonthlyBody (Some s) rows\<rparr> \<and>
         map list_of rows =
           sort_key l_createdAt
             (filter (\<lambda>l. start \<le> of_int (l_createdAt l) \<and> of_int (l_createdAt l) < end) (db_lists d)) \<and>
         (\<forall>row\<in>set rows.
            item_rows_of d (l_id row) = [] \<longrightarrow> totalQuantity row = 0 \<and> categories row = [])"
    by (intro exI[of _ a] exI[of _ b] exI[of _ rows]) simp
qed

text \<open>
  The theorem at the example: the month 2024-02 matches, the example items have a row, and
  list 2 of the example database, which has no item rows, is in the response with
  totalQuantity 0 and no categories.
\<close>

theorem empty_breakdown_and_empty_lists_witness:
  "matches_YYYY_MM (lit ''2024-02'') \<and>
   (\<exists>r\<in>set (computeCategoriesBreakdown example_items example_map). \<exists>p. percent r = Fin p) \<and>
   item_rows_of example_db 2 = [] \<and>
   (\<exists>rows. getMonthlyStats example_db (Some (lit ''2024-02'')) =
        \<lparr>status = 200, body = MonthlyBody (Some (lit ''2024-02'')) rows\<rparr> \<and>
      (\<exists>row\<in>set rows. list_of row = example_list2 \<and> totalQuantity row = 0 \<and> categories row = []))"
proof -
  have m: "matches_YYYY_MM (lit ''2024-02'')"
    by (simp add: matches_YYYY_MM_def lit_def isDigit_def)
  note claim = empty_breakdown_and_empty_lists[of example_map example_items "lit ''2024-02''" example_db]
  have mem: "\<lparr>categoryId = 7, categoryName = lit ''X'', quantity = 3, percent = Fin 75\<rparr>
     \<in> set (computeCategoriesBreakdown example_items example_map)"
    by (simp add: example_rows)
  with claim have fin: "\<exists>r\<in>set (computeCategoriesBreakdown example_items example_map). \<exists>p. percent r = Fin p"
    by blast
  from claim m obtain a b rows where
    p: "parseMonth (Some (lit ''2024-02'')) = Inr (Fin a, Fin b)"
    and resp: "getMonthlyStats example_db (Some (lit ''2024-02'')) =
        \<lparr>status = 200, body = MonthlyBody (Some (lit ''2024-02'')) rows\<rparr>"
    and ls: "map list_of rows =
           sort_key l_createdAt
             (filter (\<lambda>l. a \<le> of_int (l_createdAt l) \<and> of_int (l_createdAt l) < b) (db_lists example_db))"
    and empty: "\<forall>row\<in>set rows.
            item_rows_of example_db (l_id row) = [] \<longrightarrow> totalQuantity row = 0 \<and> categories row = []"
    by blast
  from p have ab: "a = 1706745600000" "b = 1709251200000" by (simp_all add: parseMonth_2024_02)
  from ls have "map list_of rows = [example_list1, example_list2]"
    unfolding ab by (simp only: example_lists_in_range)
  then obtain row where row: "row \<in> set rows" "list_of row = example_list2"
    by (cases rows; cases "tl rows") auto
  then have "l_id row = 2" by (auto simp: list_of_def example_list2_def)
  with empty row(1) have "totalQuantity row = 0 \<and> categories row = []"
    by (simp add: example_item_rows)
  with resp row m fin example_item_rows(2) show ?thesis by blast
qed

section \<open>The interval of parseMonth\<close>

lemma first_of_month_epoch: "first_of_month 1970 0 = 0"
  by (simp add: first_of_month_def DayFromYear_def DaysBeforeMonth_def)

text \<open>
  C3 (amended). \<open>parseMonth\<close> throws the error with statusCode 400 when its input is missing
  or does not match the pattern, and throws nothing otherwise. For a matching input it returns
  the first instants of two consecutive calendar months, so the end is exactly one calendar
  month (28 to 31 days, as the calendar has it) after the start; when the year is at least 0100
  and the month is 01 to 12 the start is the first day of the given month.
\<close>

theorem parseMonth_interval:
  "parseMonth None = Inl (HttpError 400 msg_month_format) \<and>
   (\<not> matches_YYYY_MM s \<longrightarrow> parseMonth (Some s) = Inl (HttpError 400 msg_month_format)) \<and>
   (matches_YYYY_MM s \<longrightarrow>
      (\<exists>y m. 0 \<le> m \<and> m < 12 \<and>
         parseMonth (Some s) =
           Inr (Fin (of_int (first_of_month y m)), Fin (of_int (first_of_next_month y m))) \<and>
         first_of_next_month y m - first_of_month y m = days_in_month y m * msPerDay \<and>
         (100 \<le> year_digits s \<and> 1 \<le> month_digits s \<and> month_digits s \<le> 12 \<longrightarrow>
            y = year_digits s \<and> m = month_digits s - 1)))"
proof (intro conjI impI)
  show "parseMonth None = Inl (HttpError 400 msg_month_format)"
    by (simp add: parseMonth_def)
next
  assume "\<not> matches_YYYY_MM s"
  then show "parseMonth (Some s) = Inl (HttpError 400 msg_month_format)"
    by (simp add: parseMonth_def matches_iff)
next
  assume m: "matches_YYYY_MM s"
  define Y where "Y = year_digits s"
  define M where "M = month_digits s"
  define yr where "yr = (if Y \<le> 99 then 1900 + Y else Y)"
  define y where "y = yr + (M - 1) div 12"
  define mn where "mn = (M - 1) mod 12"
  from parseMonth_matches[OF m]
  have p: "parseMonth (Some s) =
      Inr (Fin (of_int (MakeDay yr (M - 1) 1 * msPerDay)), Fin (of_int (MakeDay yr M 1 * msPerDay)))"
    unfolding yr_def Y_def M_def by blast
  have s: "MakeDay yr (M - 1) 1 * msPerDay = first_of_month y mn"
    unfolding y_def mn_def by (rule MakeDay_first)
  have e: "MakeDay yr M 1 * msPerDay = first_of_next_month y mn"
    unfolding y_def mn_def by (simp only: MakeDay_first next_month_norm)
  have r: "0 \<le> mn" "mn < 12" by (simp_all add: mn_def)
  have given: "y = Y \<and> mn = M - 1" if "100 \<le> Y" "1 \<le> M" "M \<le> 12"
  proof -
    have "(M - 1) div 12 = 0" "(M - 1) mod 12 = M - 1" using that by simp_all
    then show ?thesis using that by (simp add: y_def mn_def yr_def)
  qed
  have "0 \<le> mn \<and> mn < 12 \<and>
         parseMonth (Some s) =
           Inr (Fin (of_int (first_of_month y mn)), Fin (of_int (first_of_next_month y mn))) \<and>
         first_of_next_month y mn - first_of_month y mn = days_in_month y mn * msPerDay \<and>
         (100 \<le> year_digits s \<and> 1 \<le> month_digits s \<and> month_digits s \<le> 12 \<longrightarrow>
            y = year_digits s \<and> mn = month_digits s - 1)"
    using r p[unfolded s e] month_length[OF r, of y] given unfolding Y_def M_def by blast
  then show "\<exists>y m. 0 \<le> m \<and> m < 12 \<and>
         parseMonth (Some s) =
           Inr (Fin (of_int (first_of_month y m)), Fin (of_int (first_of_next_month y m))) \<and>
         first_of_next_month y m - first_of_month y m = days_in_month y m * msPerDay \<and>
         (100 \<le> year_digits s \<and> 1 \<le> month_digits s \<and> month_digits s \<le> 12 \<longrightarrow>
            y = year_digits s \<and> m = month_digits s - 1)"
    by blast
qed

text \<open>
  The theorem at two inputs: "2024-02" matches, and its interval runs from 1 February 2024 to
  1 March 2024, 29 days later; "2024-2" does not match and is refused.
\<close>

theorem parseMonth_interval_witness:
  "matches_YYYY_MM (lit ''2024-02'') \<and> 100 \<le> year_digits (lit ''2024-02'') \<and>
   1 \<le> month_digits (lit ''2024-02'') \<and> month_digits (lit ''2024-02'') \<le> 12 \<and>
   parseMonth (Some (lit ''2024-02'')) =
     Inr (Fin (of_int (first_of_month 2024 1)), Fin (of_int (first_of_next_month 2024 1))) \<and>
   first_of_month 2024 1 = 1706745600000 \<and>
   first_of_next_month 2024 1 - first_of_month 2024 1 = 29 * msPerDay \<and>
   \<not> matches_YYYY_MM (lit ''2024-2'') \<and>
   parseMonth (Some (lit ''2024-2'')) = Inl (HttpError 400 msg_month_format)"
proof -
  have m: "matches_YYYY_MM (lit ''2024-02'')"
    by (simp add: matches_YYYY_MM_def lit_def isDigit_def)
  have d: "year_digits (lit ''2024-02'') = 2024" "month_digits (lit ''2024-02'') = 2"
    by (simp_all add: year_digits_def month_digits_def decimal_value_def lit_def)
  from parseMonth_interval[of "lit ''2024-02''"] m d
  have p: "parseMonth (Some (lit ''2024-02'')) =
     Inr (Fin (of_int (first_of_month 2024 1)), Fin (of_int (first_of_next_month 2024 1)))"
    and l: "first_of_next_month 2024 1 - first_of_month 2024 1 = days_in_month 2024 1 * msPerDay"
    by auto
  have v: "first_of_month 2024 1 = 1706745600000"
    by (simp add: first_of_month_def DayFromYear_def DaysInYear_def DaysBeforeMonth_def msPerDay_def)
  have n: "\<not> matches_YYYY_MM (lit ''2024-2'')"
    by (simp add: matches_YYYY_MM_def lit_def)
  with parseMonth_interval[of "lit ''2024-2''"]
  have q: "parseMonth (Some (lit ''2024-2'')) = Inl (HttpError 400 msg_month_format)" by blast
  from l have "first_of_next_month 2024 1 - first_of_month 2024 1 = 29 * msPerDay"
    by (simp add: days_in_month_def)
  with m d p v n q show ?thesis by simp
qed

text \<open>
  The claim as stated fails for a year below 0100: "0050-03" matches the pattern, and the
  interval returned is that of March 1950, not of March of the year 50.
\<close>

theorem parseMonth_two_digit_year_counterexample:
  "matches_YYYY_MM (lit ''0050-03'') \<and> year_digits (lit ''0050-03'') = 50 \<and>
   month_digits (lit ''0050-03'') = 3 \<and>
   parseMonth (Some (lit ''0050-03'')) =
     Inr (Fin (of_int (first_of_month 1950 2)), Fin (of_int (first_of_next_month 1950 2))) \<and>
   parseMonth (Some (lit ''0050-03'')) \<noteq>
     Inr (Fin (of_int (first_of_month 50 2)), Fin (of_int (first_of_next_month 50 2)))"
proof -
  have m: "matches_YYYY_MM (lit ''0050-03'')"
    by (simp add: matches_YYYY_MM_def lit_def isDigit_def)
  have d: "year_digits (lit ''0050-03'') = 50" "month_digits (lit ''0050-03'') = 3"
    by (simp_all add: year_digits_def month_digits_def decimal_value_def lit_def)
  from parseMonth_matches[OF m] d
  have p: "parseMonth (Some (lit ''0050-03'')) =
     Inr (Fin (of_int (MakeDay 1950 2 1 * msPerDay)), Fin (of_int (MakeDay 1950 3 1 * msPerDay)))"
    by simp
  have a: "MakeDay 1950 2 1 * msPerDay = first_of_month 1950 2"
    "MakeDay 1950 3 1 * msPerDay = first_of_next_month 1950 2"
    by (simp_all add: MakeDay_def first_of_month_def first_of_next_month_def)
  have v: "first_of_month 1950 2 \<noteq> first_of_month 50 2"
    by (simp add: first_of_month_def DayFromYear_def DaysInYear_def DaysBeforeMonth_def msPerDay_def)
  from p a have q: "parseMonth (Some (lit ''0050-03'')) =
     Inr (Fin (of_int (first_of_month 1950 2)), Fin (of_int (first_of_next_month 1950 2)))"
    by simp
  moreover have "parseMonth (Some (lit ''0050-03'')) \<noteq>
     Inr (Fin (of_int (first_of_month 50 2)), Fin (of_int (first_of_next_month 50 2)))"
    unfolding q using v by simp
  ultimately show ?thesis using m d by blast
qed

section \<open>The single-list endpoint\<close>

text \<open>
  C2 (the code at the failing input). With \<open>NODE_ENV\<close> set to \<open>production\<close>, the request
  \<open>GET /api/statistics/list/1\<close> for the existing list 1 is answered 500: the handler reads the
  name \<open>prisma\<close>, which its module never imports.
\<close>

theorem getStatsByList_production_500:
  "(\<exists>l\<in>set (db_lists example_db). l_id l = 1) \<and>
   getStatsByList production example_db (lit ''1'') =
     \<lparr>status = 500, body = EngineErrorBody (ReferenceError ''prisma'')\<rparr>"
  by (simp add: getStatsByList_def StringToNumber_1 globalThis_prisma_def production_def
      example_db_def example_list1_def)

end
